theory Spec2Isabelle
  imports Main "HOL-Library.Signed_Division"
begin

section \<open>Data model of \<open>common/cuda_hip/components/syncfree.hpp\<close>\<close>

text \<open>
  The template parameters of \<open>syncfree_scheduler\<close>. \<open>block_size\<close> and \<open>subwarp_size\<close> are
  positive compile-time constants of type \<open>int\<close> (a launch has \<open>block_size\<close> lanes per
  block), so they are natural numbers here. The third parameter \<open>IndexType\<close> is a signed integer type; it is
  given by its width in bits, \<open>index_bits\<close> (32 and 64 in the library's instantiations).
\<close>

record config =
  block_size :: nat
  subwarp_size :: nat
  index_bits :: nat

text \<open>
  Fixed-width integers are integers kept in range by wrapping: \<open>wrap w x\<close> is the value of
  \<open>x\<close> in two's complement on \<open>w\<close> bits. Signed overflow is undefined in C++; the model
  gives it the wrapped result that the device computes. \<open>int\<close>, and with it \<open>status_word\<close>,
  has 32 bits, \<open>size_type\<close> is unsigned and has 64. \<open>to_index\<close> is the conversion to
  \<open>IndexType\<close>; \<open>arith\<close> is the result of an arithmetic operation between an \<open>int\<close> and an
  \<open>IndexType\<close>, or between two \<open>IndexType\<close> values, which C++ computes in the wider of
  the two types and in \<open>int\<close> at least. Division and remainder truncate towards zero
  (\<open>sdiv\<close>, \<open>smod\<close>); with a positive divisor they cannot overflow.
\<close>

definition wrap :: "nat \<Rightarrow> int \<Rightarrow> int" where
  "wrap w x = (x + 2 ^ (w - 1)) mod 2 ^ w - 2 ^ (w - 1)"

definition int_bits :: nat where
  "int_bits = 32"

definition size_bits :: nat where
  "size_bits = 64"

definition to_index :: "config \<Rightarrow> int \<Rightarrow> int" where
  "to_index cfg x = wrap (index_bits cfg) x"

definition arith :: "config \<Rightarrow> int \<Rightarrow> int" where
  "arith cfg x = wrap (max int_bits (index_bits cfg)) x"

definition local_dependency_count :: "config \<Rightarrow> nat" where
  "local_dependency_count cfg = block_size cfg div subwarp_size cfg"

text \<open>
  \<open>struct syncfree_storage\<close>: the pointer \<open>status\<close> is modelled by the array it points to,
  the pointer \<open>block_counter\<close> by its offset from \<open>status\<close>.
\<close>

record syncfree_storage =
  status :: "int list"
  block_counter :: nat

text \<open>\<open>struct shared_storage\<close>: one instance in the shared memory of every block.\<close>

record shared_storage =
  sh_status :: "int list"
  block_offset :: int

text \<open>
  The memory a kernel launch works on: the global arrays behind \<open>syncfree_storage\<close> and,
  for every physical block (\<open>blockIdx.x\<close>), its \<open>shared_storage\<close>.
\<close>

record memory =
  global :: syncfree_storage
  shared :: "nat \<Rightarrow> shared_storage"

text \<open>
  The private members of a \<open>syncfree_scheduler\<close> object of one lane, together with the
  lane's coordinates: \<open>blockIdx\<close> selects the \<open>shared_storage\<close> the reference \<open>local\<close>
  is bound to; the member \<open>global\<close> is a copy of the pointers of the storage struct,
  which the memory holds in its field of the same name.
\<close>

record syncfree_scheduler =
  blockIdx :: nat
  threadIdx :: nat
  work_id :: int
  block_id :: int

text \<open>
  Every access to memory and every barrier of the source is an action; an event is an
  action with the lane (block, thread) that performed it.
\<close>

datatype action =
    Atomic_add int int
  | Store_offset int
  | Load_offset
  | Store_shared int int
  | Syncthreads
  | Tile_sync
  | Load_acquire_shared int
  | Load_acquire int
  | Store_release_shared int int
  | Store_release int int

type_synonym event = "nat \<times> nat \<times> action"

text \<open>
  Undefined behaviour of the source is a fault of the model: an access outside an array, a
  division by a zero \<open>local_dependency_count\<close>. \<open>Spinning\<close> is the outcome of a wait that
  has not observed \<open>Ready\<close> within the observations it was given.
\<close>

datatype fault = Out_of_bounds | Division_by_zero | Spinning

type_synonym 'a prog = "memory \<Rightarrow> fault + ('a \<times> event list \<times> memory)"

definition rd :: "int list \<Rightarrow> int \<Rightarrow> int option" where
  "rd xs i = (if 0 \<le> i \<and> nat i < length xs then Some (xs ! nat i) else None)"

definition wr :: "int list \<Rightarrow> int \<Rightarrow> int \<Rightarrow> int list option" where
  "wr xs i v = (if 0 \<le> i \<and> nat i < length xs then Some (xs[nat i := v]) else None)"

definition set_status :: "int list \<Rightarrow> memory \<Rightarrow> memory" where
  "set_status xs m = m\<lparr>global := (global m)\<lparr>status := xs\<rparr>\<rparr>"

definition set_sh_status :: "nat \<Rightarrow> int list \<Rightarrow> memory \<Rightarrow> memory" where
  "set_sh_status b xs m = m\<lparr>shared := (shared m)(b := (shared m b)\<lparr>sh_status := xs\<rparr>)\<rparr>"

definition set_block_offset :: "nat \<Rightarrow> int \<Rightarrow> memory \<Rightarrow> memory" where
  "set_block_offset b v m = m\<lparr>shared := (shared m)(b := (shared m b)\<lparr>block_offset := v\<rparr>)\<rparr>"

text \<open>
  Modelled from the spec: the primitives of \<open>atomic.hpp\<close>, \<open>memory.hpp\<close> and
  \<open>cooperative_groups.hpp\<close>, which are not part of the sources at hand. \<open>atomic_add\<close> is
  the atomic fetch-and-add of the Dynamic Range Assigner (it returns the value before the
  addition, which is an addition of \<open>int\<close>), \<open>load_acquire\<close>/\<open>load_acquire_shared\<close> read one flag of the Status Store or of
  the Local Status Cache, \<open>store_release\<close>/\<open>store_release_shared\<close> write one, and the two
  barriers change no memory. \<open>step b a m\<close> is the effect of action \<open>a\<close>, performed by a
  lane of block \<open>b\<close>, on memory \<open>m\<close>, with the value the action returns.
\<close>

fun step :: "nat \<Rightarrow> action \<Rightarrow> memory \<Rightarrow> fault + (int \<times> memory)" where
  "step b (Atomic_add i v) m =
     (case rd (status (global m)) i of
        None \<Rightarrow> Inl Out_of_bounds
      | Some old \<Rightarrow>
          Inr (old, set_status ((status (global m))[nat i := wrap int_bits (old + v)]) m))"
| "step b (Store_offset v) m = Inr (0, set_block_offset b v m)"
| "step b Load_offset m = Inr (block_offset (shared m b), m)"
| "step b (Store_shared i v) m =
     (case wr (sh_status (shared m b)) i v of
        None \<Rightarrow> Inl Out_of_bounds
      | Some xs \<Rightarrow> Inr (0, set_sh_status b xs m))"
| "step b Syncthreads m = Inr (0, m)"
| "step b Tile_sync m = Inr (0, m)"
| "step b (Load_acquire_shared i) m =
     (case rd (sh_status (shared m b)) i of
        None \<Rightarrow> Inl Out_of_bounds
      | Some v \<Rightarrow> Inr (v, m))"
| "step b (Load_acquire i) m =
     (case rd (status (global m)) i of
        None \<Rightarrow> Inl Out_of_bounds
      | Some v \<Rightarrow> Inr (v, m))"
| "step b (Store_release_shared i v) m =
     (case wr (sh_status (shared m b)) i v of
        None \<Rightarrow> Inl Out_of_bounds
      | Some xs \<Rightarrow> Inr (0, set_sh_status b xs m))"
| "step b (Store_release i v) m =
     (case wr (status (global m)) i v of
        None \<Rightarrow> Inl Out_of_bounds
      | Some xs \<Rightarrow> Inr (0, set_status xs m))"

text \<open>Sequencing of lane programs: faults propagate, events are appended.\<close>

definition return_prog :: "'a \<Rightarrow> 'a prog" where
  "return_prog x m = Inr (x, [], m)"

definition and_then :: "'a prog \<Rightarrow> ('a \<Rightarrow> 'b prog) \<Rightarrow> 'b prog" where
  "and_then p f m =
     (case p m of
        Inl e \<Rightarrow> Inl e
      | Inr (x, es, m') \<Rightarrow>
          (case f x m' of
             Inl e \<Rightarrow> Inl e
           | Inr (y, es', m'') \<Rightarrow> Inr (y, es @ es', m'')))"

text \<open>One action performed by lane \<open>t\<close> of block \<open>b\<close>, recorded as an event.\<close>

definition perform :: "nat \<Rightarrow> nat \<Rightarrow> action \<Rightarrow> int prog" where
  "perform b t a m =
     (case step b a m of
        Inl e \<Rightarrow> Inl e
      | Inr (v, m') \<Rightarrow> Inr (v, [(b, t, a)], m'))"

fun for_lanes :: "(nat \<Rightarrow> 'a prog) \<Rightarrow> nat list \<Rightarrow> 'a list prog" where
  "for_lanes f [] = return_prog []"
| "for_lanes f (t # ts) =
     and_then (f t) (\<lambda>x. and_then (for_lanes f ts) (\<lambda>xs. return_prog (x # xs)))"

section \<open>The storage constructor\<close>

text \<open>
  Modelled from the spec: \<open>array::resize_and_reset\<close> and \<open>components::fill_array\<close> are
  not part of the sources at hand. The first gives the array the requested number of
  elements without keeping or initialising them (\<open>junk\<close> stands for what the fresh
  allocation contains), the second overwrites the first \<open>n\<close> elements with one value.
\<close>

definition resize_and_reset :: "(nat \<Rightarrow> int) \<Rightarrow> nat \<Rightarrow> int list \<Rightarrow> int list" where
  "resize_and_reset junk n xs = (if length xs = n then xs else map junk [0..<n])"

definition fill_array :: "int list \<Rightarrow> nat \<Rightarrow> int \<Rightarrow> int list option" where
  "fill_array xs n v = (if n \<le> length xs then Some (replicate n v @ drop n xs) else None)"

text \<open>
  \<open>syncfree_storage::syncfree_storage(exec, status_array, num_elements)\<close>. The result is
  the constructed struct; its \<open>status\<close> field is also the new content of \<open>status_array\<close>.
  The sum \<open>num_elements + 1\<close> is a sum of \<open>size_type\<close>.
\<close>

definition syncfree_storage_ctor ::
    "(nat \<Rightarrow> int) \<Rightarrow> int list \<Rightarrow> nat \<Rightarrow> syncfree_storage option" where
  "syncfree_storage_ctor junk status_array num_elements =
     (let arr = resize_and_reset junk ((num_elements + 1) mod 2 ^ size_bits) status_array
      in case fill_array arr ((num_elements + 1) mod 2 ^ size_bits) 0 of
           None \<Rightarrow> None
         | Some arr' \<Rightarrow> Some \<lparr>status = arr', block_counter = num_elements\<rparr>)"

section \<open>The scheduler\<close>

subsection \<open>Constructor\<close>

text \<open>
  The loop \<open>for (int i = threadIdx.x; i < local_dependency_count; i += subwarp_size)\<close>
  of the constructor. A zero \<open>subwarp_size\<close> does not compile (the constant
  \<open>local_dependency_count\<close> divides by it), so the loop is only entered for a positive one.
\<close>

function reset_loop :: "config \<Rightarrow> nat \<Rightarrow> nat \<Rightarrow> nat \<Rightarrow> unit prog" where
  "reset_loop cfg b t i m =
     (if i < local_dependency_count cfg \<and> 0 < subwarp_size cfg
      then (case perform b t (Store_shared (int i) 0) m of
              Inl e \<Rightarrow> Inl e
            | Inr (_, es, m') \<Rightarrow>
                (case reset_loop cfg b t (i + subwarp_size cfg) m' of
                   Inl e \<Rightarrow> Inl e
                 | Inr (u, es', m'') \<Rightarrow> Inr (u, es @ es', m'')))
      else Inr ((), [], m))"
  by pat_completeness auto
termination
  by (relation "measure (\<lambda>(cfg, b, t, i, m). local_dependency_count cfg - i)") auto

declare reset_loop.simps [simp del]

text \<open>The constructor of one lane up to \<open>__syncthreads()\<close>.\<close>

definition ctor_pre :: "config \<Rightarrow> nat \<Rightarrow> nat \<Rightarrow> unit prog" where
  "ctor_pre cfg b t =
     and_then
       (if t = 0
        then (\<lambda>m. and_then (perform b t (Atomic_add (int (block_counter (global m))) 1))
                    (\<lambda>old. perform b t
                       (Store_offset
                          (to_index cfg (arith cfg (old * to_index cfg (int (block_size cfg))))))) m)
        else return_prog 0)
       (\<lambda>_. reset_loop cfg b t t)"

text \<open>The constructor of one lane after \<open>__syncthreads()\<close>: the two private members.\<close>

definition ctor_post :: "config \<Rightarrow> nat \<Rightarrow> nat \<Rightarrow> syncfree_scheduler prog" where
  "ctor_post cfg b t =
     and_then (perform b t Load_offset) (\<lambda>off1.
     and_then (perform b t Load_offset) (\<lambda>off2.
       return_prog \<lparr>blockIdx = b, threadIdx = t,
                    work_id = to_index cfg
                                (arith cfg (off2 + to_index cfg (int t)) sdiv int (subwarp_size cfg)),
                    block_id = to_index cfg (off1 sdiv int (block_size cfg))\<rparr>))"

text \<open>
  The constructor as the \<open>block_size\<close> lanes of physical block \<open>b\<close> execute it: every lane
  runs up to the barrier, all pass \<open>__syncthreads()\<close>, every lane finishes. Only the
  \<open>atomic_add\<close> of lane 0 touches memory shared with other blocks, so a whole block is
  placed at the position of its \<open>atomic_add\<close> in the order of the launch.
\<close>

definition ctor_block :: "config \<Rightarrow> nat \<Rightarrow> syncfree_scheduler list prog" where
  "ctor_block cfg b =
     and_then (for_lanes (ctor_pre cfg b) [0..<block_size cfg]) (\<lambda>_.
     and_then (for_lanes (\<lambda>t. perform b t Syncthreads) [0..<block_size cfg]) (\<lambda>_.
       for_lanes (ctor_post cfg b) [0..<block_size cfg]))"

text \<open>
  A launch: the physical blocks start in the order \<open>bs\<close>, which the hardware chooses.
\<close>

fun launch :: "config \<Rightarrow> nat list \<Rightarrow> syncfree_scheduler list list prog" where
  "launch cfg [] = return_prog []"
| "launch cfg (b # bs) =
     and_then (ctor_block cfg b) (\<lambda>hs.
     and_then (launch cfg bs) (\<lambda>hss. return_prog (hs # hss)))"

subsection \<open>Member functions\<close>

definition get_work_id :: "syncfree_scheduler \<Rightarrow> int prog" where
  "get_work_id s = return_prog (work_id s)"

definition get_lane :: "config \<Rightarrow> syncfree_scheduler \<Rightarrow> nat" where
  "get_lane cfg s = threadIdx s mod subwarp_size cfg"

text \<open>
  The loops \<open>while (!load_acquire...(p)) {}\<close> of \<open>wait\<close>. Other lanes change the memory
  while a lane spins: the lane is given the memory as it finds it at each successive
  load. It leaves the loop at the first load that returns a non-zero word; when the
  observations end before that, it is still spinning.
\<close>

fun spin :: "nat \<Rightarrow> nat \<Rightarrow> action \<Rightarrow> memory list \<Rightarrow> fault + (unit \<times> event list \<times> memory)" where
  "spin b t a [] = Inl Spinning"
| "spin b t a (m # ms) =
     (case perform b t a m of
        Inl e \<Rightarrow> Inl e
      | Inr (v, es, m') \<Rightarrow>
          if v \<noteq> 0 then Inr ((), es, m')
          else (case spin b t a ms of
                  Inl e \<Rightarrow> Inl e
                | Inr (u, es', m'') \<Rightarrow> Inr (u, es @ es', m'')))"

text \<open>
  \<open>wait(dependency)\<close>, called in memory \<open>m\<close>; \<open>later\<close> are the memories found at the
  loads after the first one.
\<close>

definition wait ::
    "config \<Rightarrow> syncfree_scheduler \<Rightarrow> int \<Rightarrow> memory \<Rightarrow> memory list
      \<Rightarrow> fault + (unit \<times> event list \<times> memory)" where
  "wait cfg s dependency m later =
     (if local_dependency_count cfg = 0 then Inl Division_by_zero
      else
        let dep_block = dependency sdiv int (local_dependency_count cfg);
            dep_local = dependency smod int (local_dependency_count cfg)
        in if get_lane cfg s = 0
           then (case (if dep_block = block_id s
                       then spin (blockIdx s) (threadIdx s)
                              (Load_acquire_shared dep_local) (m # later)
                       else spin (blockIdx s) (threadIdx s)
                              (Load_acquire dependency) (m # later)) of
                   Inl e \<Rightarrow> Inl e
                 | Inr (_, es, m') \<Rightarrow>
                     (case perform (blockIdx s) (threadIdx s) Tile_sync m' of
                        Inl e \<Rightarrow> Inl e
                      | Inr (_, es', m'') \<Rightarrow> Inr ((), es @ es', m'')))
           else (case perform (blockIdx s) (threadIdx s) Tile_sync m of
                   Inl e \<Rightarrow> Inl e
                 | Inr (_, es', m'') \<Rightarrow> Inr ((), es', m'')))"

text \<open>\<open>peek(dependency)\<close>: the loaded word, converted to \<open>bool\<close>.\<close>

definition peek :: "config \<Rightarrow> syncfree_scheduler \<Rightarrow> int \<Rightarrow> bool prog" where
  "peek cfg s dependency =
     (if local_dependency_count cfg = 0 then (\<lambda>m. Inl Division_by_zero)
      else
        let dep_block = dependency sdiv int (local_dependency_count cfg);
            dep_local = dependency smod int (local_dependency_count cfg)
        in if dep_block = block_id s
           then and_then (perform (blockIdx s) (threadIdx s) (Load_acquire_shared dep_local))
                  (\<lambda>v. return_prog (v \<noteq> 0))
           else and_then (perform (blockIdx s) (threadIdx s) (Load_acquire dependency))
                  (\<lambda>v. return_prog (v \<noteq> 0)))"

text \<open>\<open>mark_ready()\<close>.\<close>

definition mark_ready :: "config \<Rightarrow> syncfree_scheduler \<Rightarrow> unit prog" where
  "mark_ready cfg s =
     and_then (perform (blockIdx s) (threadIdx s) Tile_sync) (\<lambda>_.
       if get_lane cfg s = 0
       then (if local_dependency_count cfg = 0 then (\<lambda>m. Inl Division_by_zero)
             else and_then (get_work_id s) (\<lambda>w1.
                  let sh_id = w1 smod int (local_dependency_count cfg)
                  in and_then (perform (blockIdx s) (threadIdx s) (Store_release_shared sh_id 1)) (\<lambda>_.
                     and_then (get_work_id s) (\<lambda>w2.
                     and_then (perform (blockIdx s) (threadIdx s) (Store_release w2 1)) (\<lambda>_.
                       return_prog ())))))
       else return_prog ())"

section \<open>Executions and auxiliary notions\<close>

text \<open>
  The effect of a sequence of events on the memory, whichever lanes they come from: an
  execution of the kernel is an interleaving of the events of its lanes.
\<close>

fun run_events :: "event list \<Rightarrow> memory \<Rightarrow> fault + memory" where
  "run_events [] m = Inr m"
| "run_events ((b, t, a) # es) m =
     (case step b a m of Inl e \<Rightarrow> Inl e | Inr (_, m') \<Rightarrow> run_events es m')"

text \<open>
  The events that the four member functions can emit: an event of the result of some call
  of \<open>get_work_id\<close>, \<open>wait\<close>, \<open>peek\<close> or \<open>mark_ready\<close>, by any lane, in any memory.
\<close>

inductive scheduler_event :: "config \<Rightarrow> event \<Rightarrow> bool" for cfg :: config where
  of_get_work_id: "get_work_id s m = Inr (r, es, m') \<Longrightarrow> e \<in> set es \<Longrightarrow> scheduler_event cfg e"
| of_wait: "wait cfg s d m later = Inr (u, es, m') \<Longrightarrow> e \<in> set es \<Longrightarrow> scheduler_event cfg e"
| of_peek: "peek cfg s d m = Inr (p, es, m') \<Longrightarrow> e \<in> set es \<Longrightarrow> scheduler_event cfg e"
| of_mark_ready: "mark_ready cfg s m = Inr (u, es, m') \<Longrightarrow> e \<in> set es \<Longrightarrow> scheduler_event cfg e"

text \<open>The atomic fetch-and-add among the actions.\<close>

fun is_atomic_add :: "action \<Rightarrow> bool" where
  "is_atomic_add (Atomic_add i v) = True"
| "is_atomic_add a = False"

text \<open>
  The actions that could take a flag out of \<open>Ready\<close> or touch the counter or the block
  offset: a store of a word other than 1, and the writes of the constructor.
\<close>

fun writes_not_ready :: "action \<Rightarrow> bool" where
  "writes_not_ready (Store_release i v) = (v \<noteq> 1)"
| "writes_not_ready (Store_release_shared i v) = (v \<noteq> 1)"
| "writes_not_ready (Store_shared i v) = (v \<noteq> 1)"
| "writes_not_ready (Atomic_add i v) = True"
| "writes_not_ready (Store_offset v) = True"
| "writes_not_ready a = False"

text \<open>Every flag of \<open>ys\<close> is the flag of \<open>xs\<close> at the same index, or \<open>Ready\<close>.\<close>

definition flags_advance :: "int list \<Rightarrow> int list \<Rightarrow> bool" where
  "flags_advance xs ys \<longleftrightarrow> length ys = length xs \<and> (\<forall>i < length xs. ys ! i = xs ! i \<or> ys ! i = 1)"

section \<open>Basic facts about memory and actions\<close>

lemma rd_Some [simp]: "0 \<le> i \<Longrightarrow> nat i < length xs \<Longrightarrow> rd xs i = Some (xs ! nat i)"
  by (simp add: rd_def)

lemma wr_Some [simp]: "0 \<le> i \<Longrightarrow> nat i < length xs \<Longrightarrow> wr xs i v = Some (xs[nat i := v])"
  by (simp add: wr_def)

lemma global_set_status [simp]: "global (set_status xs m) = (global m)\<lparr>status := xs\<rparr>"
  by (simp add: set_status_def)

lemma shared_set_status [simp]: "shared (set_status xs m) = shared m"
  by (simp add: set_status_def)

lemma global_set_sh_status [simp]: "global (set_sh_status b xs m) = global m"
  by (simp add: set_sh_status_def)

lemma shared_set_sh_status [simp]:
  "shared (set_sh_status b xs m) = (shared m)(b := (shared m b)\<lparr>sh_status := xs\<rparr>)"
  by (simp add: set_sh_status_def)

lemma global_set_block_offset [simp]: "global (set_block_offset b v m) = global m"
  by (simp add: set_block_offset_def)

lemma shared_set_block_offset [simp]:
  "shared (set_block_offset b v m) = (shared m)(b := (shared m b)\<lparr>block_offset := v\<rparr>)"
  by (simp add: set_block_offset_def)

lemma set_sh_status_twice [simp]:
  "set_sh_status b xs (set_sh_status b ys m) = set_sh_status b xs m"
  by (simp add: set_sh_status_def)

lemma set_sh_status_same: "set_sh_status b (sh_status (shared m b)) m = m"
  by (simp add: set_sh_status_def)

lemma perform_sync [simp]: "perform b t Tile_sync m = Inr (0, [(b, t, Tile_sync)], m)"
  "perform b t Syncthreads m = Inr (0, [(b, t, Syncthreads)], m)"
  "perform b t Load_offset m = Inr (block_offset (shared m b), [(b, t, Load_offset)], m)"
  "perform b t (Store_offset v) m = Inr (0, [(b, t, Store_offset v)], set_block_offset b v m)"
  by (simp_all add: perform_def)

lemma perform_store_release:
  "0 \<le> i \<Longrightarrow> nat i < length (status (global m)) \<Longrightarrow>
   perform b t (Store_release i v) m = Inr (0, [(b, t, Store_release i v)], set_status ((status (global m))[nat i := v]) m)"
  by (simp add: perform_def)

lemma perform_store_release_shared:
  "0 \<le> i \<Longrightarrow> nat i < length (sh_status (shared m b)) \<Longrightarrow>
   perform b t (Store_release_shared i v) m = Inr (0, [(b, t, Store_release_shared i v)], set_sh_status b ((sh_status (shared m b))[nat i := v]) m)"
  by (simp add: perform_def)

lemma perform_load_acquire:
  "0 \<le> i \<Longrightarrow> nat i < length (status (global m)) \<Longrightarrow>
   perform b t (Load_acquire i) m = Inr (status (global m) ! nat i, [(b, t, Load_acquire i)], m)"
  by (simp add: perform_def)

lemma perform_load_acquire_shared:
  "0 \<le> i \<Longrightarrow> nat i < length (sh_status (shared m b)) \<Longrightarrow>
   perform b t (Load_acquire_shared i) m =
     Inr (sh_status (shared m b) ! nat i, [(b, t, Load_acquire_shared i)], m)"
  by (simp add: perform_def)

lemma perform_store_shared:
  "0 \<le> i \<Longrightarrow> nat i < length (sh_status (shared m b)) \<Longrightarrow>
   perform b t (Store_shared i v) m =
     Inr (0, [(b, t, Store_shared i v)], set_sh_status b ((sh_status (shared m b))[nat i := v]) m)"
  by (simp add: perform_def)

lemma perform_atomic_add:
  "0 \<le> i \<Longrightarrow> nat i < length (status (global m)) \<Longrightarrow>
   perform b t (Atomic_add i v) m =
     Inr (status (global m) ! nat i, [(b, t, Atomic_add i v)],
          set_status ((status (global m))[nat i := wrap int_bits (status (global m) ! nat i + v)]) m)"
  by (simp add: perform_def)

lemma wrap_id:
  assumes "0 < w" "- (2 ^ (w - 1)) \<le> x" "x < 2 ^ (w - 1)"
  shows "wrap w x = x"
proof -
  from assms(1) have "(2::int) ^ w = 2 * 2 ^ (w - 1)"
    by (cases w) simp_all
  with assms(2,3) have "0 \<le> x + 2 ^ (w - 1)" "x + 2 ^ (w - 1) < 2 ^ w"
    by simp_all
  then have "(x + 2 ^ (w - 1)) mod 2 ^ w = x + 2 ^ (w - 1)"
    by simp
  then show ?thesis by (simp add: wrap_def)
qed

lemma wrap_id_wider:
  assumes "0 < w" "w \<le> w'" "0 \<le> x" "x < 2 ^ (w - 1)"
  shows "wrap w' x = x"
proof -
  from assms(2) have le: "(2::int) ^ (w - 1) \<le> 2 ^ (w' - 1)"
    by (intro power_increasing) simp_all
  from assms(4) le have "x < 2 ^ (w' - 1)" by (rule less_le_trans)
  moreover have "(0::int) \<le> 2 ^ (w' - 1)" by simp
  with assms(3) have "- (2 ^ (w' - 1)) \<le> x" by linarith
  moreover from assms(1,2) have "0 < w'" by simp
  ultimately show ?thesis by (intro wrap_id)
qed

lemma to_index_id:
  "0 < index_bits cfg \<Longrightarrow> 0 \<le> x \<Longrightarrow> x < 2 ^ (index_bits cfg - 1) \<Longrightarrow> to_index cfg x = x"
  unfolding to_index_def by (rule wrap_id_wider [where w = "index_bits cfg"]) simp_all

lemma arith_id:
  "0 < index_bits cfg \<Longrightarrow> 0 \<le> x \<Longrightarrow> x < 2 ^ (index_bits cfg - 1) \<Longrightarrow> arith cfg x = x"
  unfolding arith_def by (rule wrap_id_wider [where w = "index_bits cfg"]) simp_all

lemma sdiv_range:
  assumes "0 \<le> (x::int)"
  shows "0 \<le> x sdiv int n \<and> x sdiv int n \<le> x"
proof (cases "n = 0")
  case True
  with assms show ?thesis by simp
next
  case False
  then have n: "0 < n" by simp
  have "x sdiv int n = int (nat x div n)"
    using assms n by (simp add: signed_divide_int_def sgn_if zdiv_int)
  moreover have "nat x div n \<le> nat x" by simp
  ultimately show ?thesis using assms by linarith
qed

lemma perform_events: "perform b t a m = Inr (v, es, m') \<Longrightarrow> es = [(b, t, a)]"
  by (auto simp: perform_def split: sum.splits)

lemma smod_nonneg: "0 \<le> (w::int) \<Longrightarrow> 0 < n \<Longrightarrow> w smod int n = int (nat w mod n)"
  by (simp add: signed_modulo_int_def sgn_if zmod_int)

lemma sdiv_nonneg: "0 \<le> (w::int) \<Longrightarrow> 0 < n \<Longrightarrow> w sdiv int n = int (nat w div n)"
  by (simp add: signed_divide_int_def sgn_if zdiv_int)

lemma storage_ctor_result:
  assumes "n + 1 < 2 ^ size_bits"
  shows "syncfree_storage_ctor junk status_array n =
           Some \<lparr>status = replicate (n + 1) 0, block_counter = n\<rparr>"
proof -
  from assms have "(n + 1) mod 2 ^ size_bits = n + 1" by simp
  then show ?thesis
    by (simp only: syncfree_storage_ctor_def Let_def)
       (simp add: resize_and_reset_def fill_array_def)
qed

section \<open>Facts about \<open>mark_ready\<close>, \<open>wait\<close> and \<open>peek\<close>\<close>

lemma mark_ready_other:
  assumes "get_lane cfg s \<noteq> 0"
  shows "mark_ready cfg s m = Inr ((), [(blockIdx s, threadIdx s, Tile_sync)], m)"
  using assms
  by (simp add: mark_ready_def and_then_def return_prog_def)

lemma mark_ready_lane0_cases:
  assumes "get_lane cfg s = 0"
  shows "mark_ready cfg s m =
    (if local_dependency_count cfg = 0 then Inl Division_by_zero
     else case wr (sh_status (shared m (blockIdx s))) (work_id s smod int (local_dependency_count cfg)) 1 of
        None \<Rightarrow> Inl Out_of_bounds
      | Some xs \<Rightarrow>
         (case wr (status (global m)) (work_id s) 1 of
            None \<Rightarrow> Inl Out_of_bounds
          | Some ys \<Rightarrow> Inr ((),
             [(blockIdx s, threadIdx s, Tile_sync),
              (blockIdx s, threadIdx s, Store_release_shared (work_id s smod int (local_dependency_count cfg)) 1),
              (blockIdx s, threadIdx s, Store_release (work_id s) 1)],
             set_status ys (set_sh_status (blockIdx s) xs m))))"
  using assms
  by (simp add: mark_ready_def and_then_def get_work_id_def return_prog_def perform_def Let_def
        split: option.splits)

lemma mark_ready_designated:
  assumes "get_lane cfg s = 0" "0 < local_dependency_count cfg" "0 \<le> work_id s"
    "nat (work_id s) < length (status (global m))"
    "nat (work_id s) mod local_dependency_count cfg < length (sh_status (shared m (blockIdx s)))"
  shows "mark_ready cfg s m = Inr ((),
     [(blockIdx s, threadIdx s, Tile_sync),
      (blockIdx s, threadIdx s, Store_release_shared (int (nat (work_id s) mod local_dependency_count cfg)) 1),
      (blockIdx s, threadIdx s, Store_release (work_id s) 1)],
     set_status ((status (global m))[nat (work_id s) := 1])
       (set_sh_status (blockIdx s) ((sh_status (shared m (blockIdx s)))[nat (work_id s) mod local_dependency_count cfg := 1]) m))"
  using assms
  by (simp add: mark_ready_lane0_cases smod_nonneg)

lemma mark_ready_designated_success:
  assumes "get_lane cfg s = 0" "mark_ready cfg s m = Inr (u, es, m')"
  shows "0 < local_dependency_count cfg \<and> 0 \<le> work_id s \<and>
    nat (work_id s) < length (status (global m)) \<and>
    nat (work_id s) mod local_dependency_count cfg < length (sh_status (shared m (blockIdx s)))"
proof -
  let ?cap = "local_dependency_count cfg"
  from assms have cap: "0 < ?cap"
    by (auto simp: mark_ready_lane0_cases split: if_splits)
  from assms cap have 2: "0 \<le> work_id s \<and> nat (work_id s) < length (status (global m))"
    by (auto simp: mark_ready_lane0_cases wr_def split: option.splits if_splits)
  from assms cap have 1: "wr (sh_status (shared m (blockIdx s))) (work_id s smod int ?cap) 1 \<noteq> None"
    by (auto simp: mark_ready_lane0_cases split: option.splits if_splits)
  from 1 2 cap show ?thesis
    by (auto simp: wr_def smod_nonneg split: if_splits)
qed

lemma mark_ready_run_events:
  assumes "mark_ready cfg s m = Inr (u, es, m')"
  shows "run_events es m = Inr m'"
proof (cases "get_lane cfg s = 0")
  case True
  with assms show ?thesis
    by (auto simp: mark_ready_lane0_cases split: if_splits option.splits)
next
  case False
  with assms show ?thesis by (auto simp: mark_ready_other)
qed

lemma spin_loads:
  assumes "\<forall>m' \<in> set ms. perform b t a m' = Inr (flag m', [(b, t, a)], m')"
  shows "spin b t a ms =
     (case dropWhile (\<lambda>m'. flag m' = 0) ms of
        [] \<Rightarrow> Inl Spinning
      | m' # _ \<Rightarrow> Inr ((), replicate (Suc (length (takeWhile (\<lambda>m'. flag m' = 0) ms))) (b, t, a), m'))"
  using assms
proof (induction ms)
  case Nil
  then show ?case by simp
next
  case (Cons m ms)
  show ?case
  proof (cases "flag m = 0")
    case True
    from Cons.prems have ih: "spin b t a ms =
       (case dropWhile (\<lambda>m'. flag m' = 0) ms of
          [] \<Rightarrow> Inl Spinning
        | m' # _ \<Rightarrow> Inr ((), replicate (Suc (length (takeWhile (\<lambda>m'. flag m' = 0) ms))) (b, t, a), m'))"
      by (intro Cons.IH) simp
    from Cons.prems True have "perform b t a m = Inr (0, [(b, t, a)], m)"
      by simp
    with True ih show ?thesis
      by (cases "dropWhile (\<lambda>m'. flag m' = 0) ms") (simp_all del: dropWhile_eq_Nil_conv)
  next
    case False
    with Cons show ?thesis by simp
  qed
qed

lemma spin_events:
  "spin b t a ms = Inr (u, es, m') \<Longrightarrow> set es \<subseteq> {(b, t, a)}"
proof (induction ms arbitrary: u es m')
  case Nil
  then show ?case by simp
next
  case (Cons m ms)
  show ?case
  proof (cases "perform b t a m")
    case (Inl e)
    with Cons.prems show ?thesis by simp
  next
    case (Inr r)
    obtain v es0 m0 where r: "r = (v, es0, m0)" by (cases r)
    from Inr r have es0: "es0 = [(b, t, a)]" by (simp add: perform_events)
    show ?thesis
    proof (cases "v \<noteq> 0")
      case True
      with Cons.prems Inr r es0 show ?thesis by auto
    next
      case False
      with Cons.prems Inr r obtain u' es' m'' where
        "spin b t a ms = Inr (u', es', m'')" "es = es0 @ es'"
        by (auto split: sum.splits)
      with Cons.IH es0 show ?thesis by auto
    qed
  qed
qed

lemma wait_other_lane:
  "0 < local_dependency_count cfg \<Longrightarrow> get_lane cfg s \<noteq> 0 \<Longrightarrow>
   wait cfg s d m later = Inr ((), [(blockIdx s, threadIdx s, Tile_sync)], m)"
  by (simp add: wait_def Let_def)

lemma wait_lane0_local:
  assumes "0 < local_dependency_count cfg" "get_lane cfg s = 0" "0 \<le> d"
    and "d sdiv int (local_dependency_count cfg) = block_id s"
    and "\<forall>m' \<in> set (m # later).
           length (sh_status (shared m' (blockIdx s))) = local_dependency_count cfg"
  shows "wait cfg s d m later =
     (case dropWhile (\<lambda>m'. sh_status (shared m' (blockIdx s)) ! (nat d mod local_dependency_count cfg) = 0) (m # later) of
        [] \<Rightarrow> Inl Spinning
      | m' # _ \<Rightarrow> Inr ((),
          replicate (Suc (length (takeWhile (\<lambda>m'. sh_status (shared m' (blockIdx s)) ! (nat d mod local_dependency_count cfg) = 0) (m # later))))
            (blockIdx s, threadIdx s, Load_acquire_shared (int (nat d mod local_dependency_count cfg)))
          @ [(blockIdx s, threadIdx s, Tile_sync)], m'))"
proof -
  let ?cap = "local_dependency_count cfg"
  let ?a = "Load_acquire_shared (int (nat d mod ?cap))"
  let ?flag = "\<lambda>m'. sh_status (shared m' (blockIdx s)) ! (nat d mod ?cap)"
  have "\<forall>m' \<in> set (m # later). perform (blockIdx s) (threadIdx s) ?a m'
          = Inr (?flag m', [(blockIdx s, threadIdx s, ?a)], m')"
    using assms(1,5) by (simp add: perform_load_acquire_shared)
  then have sp: "spin (blockIdx s) (threadIdx s) ?a (m # later) =
      (case dropWhile (\<lambda>m'. ?flag m' = 0) (m # later) of
        [] \<Rightarrow> Inl Spinning
      | m' # _ \<Rightarrow> Inr ((), replicate (Suc (length (takeWhile (\<lambda>m'. ?flag m' = 0) (m # later))))
            (blockIdx s, threadIdx s, ?a), m'))"
    by (rule spin_loads)
  have "wait cfg s d m later =
      (case spin (blockIdx s) (threadIdx s) ?a (m # later) of
         Inl e \<Rightarrow> Inl e
       | Inr (_, es, m') \<Rightarrow> Inr ((), es @ [(blockIdx s, threadIdx s, Tile_sync)], m'))"
    using assms(1-4) by (simp add: wait_def Let_def smod_nonneg split: sum.splits)
  then show ?thesis
    unfolding sp
    by (cases "dropWhile (\<lambda>m'. ?flag m' = 0) (m # later)") (simp_all del: dropWhile_eq_Nil_conv dropWhile.simps takeWhile.simps)
qed

lemma wait_lane0_global:
  assumes "0 < local_dependency_count cfg" "get_lane cfg s = 0" "0 \<le> d"
    and "d sdiv int (local_dependency_count cfg) \<noteq> block_id s"
    and "\<forall>m' \<in> set (m # later). nat d < length (status (global m'))"
  shows "wait cfg s d m later =
     (case dropWhile (\<lambda>m'. status (global m') ! nat d = 0) (m # later) of
        [] \<Rightarrow> Inl Spinning
      | m' # _ \<Rightarrow> Inr ((),
          replicate (Suc (length (takeWhile (\<lambda>m'. status (global m') ! nat d = 0) (m # later))))
            (blockIdx s, threadIdx s, Load_acquire d)
          @ [(blockIdx s, threadIdx s, Tile_sync)], m'))"
proof -
  let ?a = "Load_acquire d"
  let ?flag = "\<lambda>m'. status (global m') ! nat d"
  have "\<forall>m' \<in> set (m # later). perform (blockIdx s) (threadIdx s) ?a m'
          = Inr (?flag m', [(blockIdx s, threadIdx s, ?a)], m')"
    using assms(3,5) by (simp add: perform_load_acquire)
  then have sp: "spin (blockIdx s) (threadIdx s) ?a (m # later) =
      (case dropWhile (\<lambda>m'. ?flag m' = 0) (m # later) of
        [] \<Rightarrow> Inl Spinning
      | m' # _ \<Rightarrow> Inr ((), replicate (Suc (length (takeWhile (\<lambda>m'. ?flag m' = 0) (m # later))))
            (blockIdx s, threadIdx s, ?a), m'))"
    by (rule spin_loads)
  have "wait cfg s d m later =
      (case spin (blockIdx s) (threadIdx s) ?a (m # later) of
         Inl e \<Rightarrow> Inl e
       | Inr (_, es, m') \<Rightarrow> Inr ((), es @ [(blockIdx s, threadIdx s, Tile_sync)], m'))"
    using assms(1-4) by (simp add: wait_def Let_def split: sum.splits)
  then show ?thesis
    unfolding sp
    by (cases "dropWhile (\<lambda>m'. ?flag m' = 0) (m # later)") (simp_all del: dropWhile_eq_Nil_conv dropWhile.simps takeWhile.simps)
qed

lemma peek_local:
  assumes "0 < local_dependency_count cfg" "0 \<le> d"
    and "d sdiv int (local_dependency_count cfg) = block_id s"
    and "length (sh_status (shared m (blockIdx s))) = local_dependency_count cfg"
  shows "peek cfg s d m =
     Inr (sh_status (shared m (blockIdx s)) ! (nat d mod local_dependency_count cfg) \<noteq> 0,
          [(blockIdx s, threadIdx s, Load_acquire_shared (int (nat d mod local_dependency_count cfg)))], m)"
  using assms
  by (simp add: peek_def and_then_def Let_def smod_nonneg perform_load_acquire_shared return_prog_def)

lemma peek_global:
  assumes "0 < local_dependency_count cfg" "0 \<le> d"
    and "d sdiv int (local_dependency_count cfg) \<noteq> block_id s"
    and "nat d < length (status (global m))"
  shows "peek cfg s d m =
     Inr (status (global m) ! nat d \<noteq> 0, [(blockIdx s, threadIdx s, Load_acquire d)], m)"
  using assms
  by (simp add: peek_def and_then_def Let_def perform_load_acquire return_prog_def)

section \<open>Facts about the constructor and the launch\<close>

lemma reset_loop_result:
  assumes "local_dependency_count cfg \<le> length (sh_status (shared m b))"
  shows "\<exists>xs es. reset_loop cfg b t i m = Inr ((), es, set_sh_status b xs m)
           \<and> length xs = length (sh_status (shared m b))
           \<and> (\<forall>e \<in> set es. \<not> is_atomic_add (snd (snd e)))"
  using assms
proof (induction cfg b t i m rule: reset_loop.induct)
  case (1 cfg b t i m)
  show ?case
  proof (cases "i < local_dependency_count cfg \<and> 0 < subwarp_size cfg")
    case False
    then have "reset_loop cfg b t i m = Inr ((), [], set_sh_status b (sh_status (shared m b)) m)"
      by (subst reset_loop.simps) (auto simp: set_sh_status_same)
    then show ?thesis by force
  next
    case True
    let ?m' = "set_sh_status b ((sh_status (shared m b))[i := 0]) m"
    have p: "perform b t (Store_shared (int i) 0) m = Inr (0, [(b, t, Store_shared (int i) 0)], ?m')"
      using True "1.prems" by (simp add: perform_store_shared)
    have "local_dependency_count cfg \<le> length (sh_status (shared ?m' b))"
      using "1.prems" by simp
    from "1.IH" [OF True p refl refl this]
    obtain xs es where r: "reset_loop cfg b t (i + subwarp_size cfg) ?m' = Inr ((), es, set_sh_status b xs ?m')"
      and l: "length xs = length (sh_status (shared ?m' b))"
      and e: "\<forall>e \<in> set es. \<not> is_atomic_add (snd (snd e))"
      by blast
    have "reset_loop cfg b t i m = Inr ((), (b, t, Store_shared (int i) 0) # es, set_sh_status b xs m)"
      using True p r by (subst reset_loop.simps) simp
    with l e show ?thesis by force
  qed
qed

lemma ctor_pre_other:
  assumes "t \<noteq> 0" "local_dependency_count cfg \<le> length (sh_status (shared m b))"
  shows "\<exists>xs es. ctor_pre cfg b t m = Inr ((), es, set_sh_status b xs m)
           \<and> length xs = length (sh_status (shared m b))
           \<and> (\<forall>e \<in> set es. \<not> is_atomic_add (snd (snd e)))"
proof -
  from reset_loop_result [OF assms(2), of t t]
  obtain xs es where "reset_loop cfg b t t m = Inr ((), es, set_sh_status b xs m)"
    "length xs = length (sh_status (shared m b))" "\<forall>e \<in> set es. \<not> is_atomic_add (snd (snd e))"
    by blast
  moreover from assms(1) have "ctor_pre cfg b t m = reset_loop cfg b t t m"
    by (simp add: ctor_pre_def and_then_def return_prog_def split: sum.splits)
  ultimately show ?thesis
    by (simp only:) blast
qed

lemma for_lanes_pre_others:
  assumes "0 \<notin> set ts" "local_dependency_count cfg \<le> length (sh_status (shared m b))"
  shows "\<exists>us xs es. for_lanes (ctor_pre cfg b) ts m = Inr (us, es, set_sh_status b xs m)
           \<and> length xs = length (sh_status (shared m b))
           \<and> (\<forall>e \<in> set es. \<not> is_atomic_add (snd (snd e)))"
  using assms
proof (induction ts arbitrary: m)
  case Nil
  have "for_lanes (ctor_pre cfg b) [] m = Inr ([], [], set_sh_status b (sh_status (shared m b)) m)"
    by (simp add: return_prog_def set_sh_status_same)
  then show ?case by force
next
  case (Cons t ts)
  from Cons.prems have t: "t \<noteq> 0" and ts: "0 \<notin> set ts" by auto
  from ctor_pre_other [OF t Cons.prems(2)]
  obtain xs es where p: "ctor_pre cfg b t m = Inr ((), es, set_sh_status b xs m)"
    and l: "length xs = length (sh_status (shared m b))"
    and e: "\<forall>e \<in> set es. \<not> is_atomic_add (snd (snd e))"
    by blast
  let ?m' = "set_sh_status b xs m"
  have "local_dependency_count cfg \<le> length (sh_status (shared ?m' b))"
    using Cons.prems(2) l by simp
  from Cons.IH [OF ts this]
  obtain us xs' es' where r: "for_lanes (ctor_pre cfg b) ts ?m' = Inr (us, es', set_sh_status b xs' ?m')"
    and l': "length xs' = length (sh_status (shared ?m' b))"
    and e': "\<forall>e \<in> set es'. \<not> is_atomic_add (snd (snd e))"
    by blast
  have "for_lanes (ctor_pre cfg b) (t # ts) m = Inr (() # us, es @ es', set_sh_status b xs' m)"
    using p r by (simp add: and_then_def return_prog_def)
  moreover have "length xs' = length (sh_status (shared m b))"
    using l l' by simp
  moreover have "\<forall>e \<in> set (es @ es'). \<not> is_atomic_add (snd (snd e))"
    using e e' by auto
  ultimately show ?case by blast
qed

lemma ctor_pre_zero:
  assumes "block_counter (global m) < length (status (global m))"
    and "local_dependency_count cfg \<le> length (sh_status (shared m b))"
  shows "\<exists>xs es. ctor_pre cfg b 0 m =
      Inr ((), (b, 0, Atomic_add (int (block_counter (global m))) 1) #
               (b, 0, Store_offset (to_index cfg (arith cfg
                   (status (global m) ! block_counter (global m) * to_index cfg (int (block_size cfg)))))) # es,
           set_sh_status b xs
             (set_block_offset b (to_index cfg (arith cfg
                   (status (global m) ! block_counter (global m) * to_index cfg (int (block_size cfg)))))
               (set_status ((status (global m))[block_counter (global m) :=
                   wrap int_bits (status (global m) ! block_counter (global m) + 1)]) m)))
    \<and> length xs = length (sh_status (shared m b))
    \<and> (\<forall>e \<in> set es. \<not> is_atomic_add (snd (snd e)))"
proof -
  let ?old = "status (global m) ! block_counter (global m)"
  let ?off = "to_index cfg (arith cfg (?old * to_index cfg (int (block_size cfg))))"
  let ?m1 = "set_block_offset b ?off
               (set_status ((status (global m))[block_counter (global m) := wrap int_bits (?old + 1)]) m)"
  have "local_dependency_count cfg \<le> length (sh_status (shared ?m1 b))"
    using assms(2) by simp
  from reset_loop_result [OF this, of 0 0]
  obtain xs es where r: "reset_loop cfg b 0 0 ?m1 = Inr ((), es, set_sh_status b xs ?m1)"
    and l: "length xs = length (sh_status (shared ?m1 b))"
    and e: "\<forall>e \<in> set es. \<not> is_atomic_add (snd (snd e))"
    by blast
  have "ctor_pre cfg b 0 m =
      Inr ((), (b, 0, Atomic_add (int (block_counter (global m))) 1) #
               (b, 0, Store_offset ?off) # es, set_sh_status b xs ?m1)"
    using assms(1) r by (simp add: ctor_pre_def and_then_def perform_atomic_add)
  moreover have "length xs = length (sh_status (shared m b))"
    using l by simp
  ultimately show ?thesis using e by blast
qed

lemma for_lanes_sync:
  "for_lanes (\<lambda>t. perform b t Syncthreads) ts m =
     Inr (map (\<lambda>_. 0) ts, map (\<lambda>t. (b, t, Syncthreads)) ts, m)"
  by (induction ts) (simp_all add: and_then_def return_prog_def)

lemma ctor_post_result:
  "ctor_post cfg b t m =
     Inr (\<lparr>blockIdx = b, threadIdx = t,
           work_id = to_index cfg (arith cfg (block_offset (shared m b) + to_index cfg (int t))
                                     sdiv int (subwarp_size cfg)),
           block_id = to_index cfg (block_offset (shared m b) sdiv int (block_size cfg))\<rparr>,
          [(b, t, Load_offset), (b, t, Load_offset)], m)"
  by (simp add: ctor_post_def and_then_def return_prog_def)

lemma for_lanes_post:
  "for_lanes (ctor_post cfg b) ts m =
     Inr (map (\<lambda>t. \<lparr>blockIdx = b, threadIdx = t,
                     work_id = to_index cfg (arith cfg (block_offset (shared m b) + to_index cfg (int t))
                                               sdiv int (subwarp_size cfg)),
                     block_id = to_index cfg (block_offset (shared m b) sdiv int (block_size cfg))\<rparr>) ts,
          concat (map (\<lambda>t. [(b, t, Load_offset), (b, t, Load_offset)]) ts), m)"
  by (induction ts) (simp_all add: and_then_def return_prog_def ctor_post_result)

lemma handle_in_range:
  assumes w: "0 < index_bits cfg" and old: "0 \<le> old"
    and bound: "(old + 1) * int (block_size cfg) < 2 ^ (index_bits cfg - 1)"
    and t: "t < block_size cfg"
  shows "to_index cfg (arith cfg (old * to_index cfg (int (block_size cfg)))) = old * int (block_size cfg)"
    and "to_index cfg (arith cfg (old * int (block_size cfg) + to_index cfg (int t))
                         sdiv int (subwarp_size cfg))
         = (old * int (block_size cfg) + int t) sdiv int (subwarp_size cfg)"
    and "to_index cfg ((old * int (block_size cfg)) sdiv int (block_size cfg))
         = (old * int (block_size cfg)) sdiv int (block_size cfg)"
proof -
  let ?bs = "int (block_size cfg)" and ?B = "(2::int) ^ (index_bits cfg - 1)"
  have full: "(old + 1) * ?bs = old * ?bs + ?bs" by (simp add: algebra_simps)
  have nn: "0 \<le> old * ?bs" using old by simp
  from bound full nn have bs: "?bs < ?B" and off: "old * ?bs < ?B" by linarith+
  from t have tb: "int t < ?bs" by simp
  with bound full have sum: "old * ?bs + int t < ?B" by linarith
  have ti_bs: "to_index cfg ?bs = ?bs"
    using w bs by (intro to_index_id) simp_all
  have ti_t: "to_index cfg (int t) = int t"
    using w tb bs by (intro to_index_id) simp_all
  show "to_index cfg (arith cfg (old * to_index cfg ?bs)) = old * ?bs"
    using w nn off by (simp add: ti_bs arith_id to_index_id)
  have q: "0 \<le> (old * ?bs + int t) sdiv int (subwarp_size cfg)"
      "(old * ?bs + int t) sdiv int (subwarp_size cfg) \<le> old * ?bs + int t"
    using sdiv_range [of "old * ?bs + int t" "subwarp_size cfg"] nn by simp_all
  have "arith cfg (old * ?bs + int t) = old * ?bs + int t"
    using w nn sum by (intro arith_id) simp_all
  moreover have "to_index cfg ((old * ?bs + int t) sdiv int (subwarp_size cfg))
      = (old * ?bs + int t) sdiv int (subwarp_size cfg)"
    using w q sum by (intro to_index_id) simp_all
  ultimately show "to_index cfg (arith cfg (old * ?bs + to_index cfg (int t)) sdiv int (subwarp_size cfg))
         = (old * ?bs + int t) sdiv int (subwarp_size cfg)"
    by (simp add: ti_t)
  have q': "0 \<le> (old * ?bs) sdiv ?bs" "(old * ?bs) sdiv ?bs \<le> old * ?bs"
    using sdiv_range [of "old * ?bs" "block_size cfg"] nn by simp_all
  show "to_index cfg ((old * ?bs) sdiv ?bs) = (old * ?bs) sdiv ?bs"
    using w q' off by (intro to_index_id) simp_all
qed

text \<open>
  Outside these bounds the integers of the source wrap. With a 32-bit \<open>IndexType\<close>, a
  block of 4 lanes that fetches \<open>2 ^ 29\<close> stores the offset \<open>- 2 ^ 31\<close>, and its lanes 1 and
  2, which belong to different lane-groups, get the same work id. A storage for
  \<open>2 ^ 64 - 1\<close> items has no word at all.
\<close>

lemma ctor_block_wraps:
  "(case ctor_block \<lparr>block_size = 4, subwarp_size = 2, index_bits = 32\<rparr> 0
           \<lparr>global = \<lparr>status = [536870912], block_counter = 0\<rparr>,
            shared = (\<lambda>_. \<lparr>sh_status = [0, 0], block_offset = 0\<rparr>)\<rparr> of
      Inl e \<Rightarrow> False
    | Inr (hs, es, m') \<Rightarrow>
        block_offset (shared m' 0) = - 2147483648 \<and>
        map work_id hs = [- 1073741824, - 1073741823, - 1073741823, - 1073741822])"
  by code_simp

lemma storage_ctor_wraps:
  "syncfree_storage_ctor junk [] 18446744073709551615
     = Some \<lparr>status = [], block_counter = 18446744073709551615\<rparr>"
  by (simp add: syncfree_storage_ctor_def size_bits_def resize_and_reset_def fill_array_def)

lemma ctor_block_result:
  assumes "0 < block_size cfg"
    and "block_counter (global m) < length (status (global m))"
    and "local_dependency_count cfg \<le> length (sh_status (shared m b))"
    and w: "0 < index_bits cfg"
    and old: "0 \<le> status (global m) ! block_counter (global m)"
    and bound: "(status (global m) ! block_counter (global m) + 1) * int (block_size cfg)
                  < 2 ^ (index_bits cfg - 1)"
  shows "\<exists>xs es. ctor_block cfg b m =
      Inr (map (\<lambda>t. \<lparr>blockIdx = b, threadIdx = t,
                 work_id = (status (global m) ! block_counter (global m) * int (block_size cfg) + int t)
                             sdiv int (subwarp_size cfg),
                 block_id = (status (global m) ! block_counter (global m) * int (block_size cfg))
                             sdiv int (block_size cfg)\<rparr>) [0..<block_size cfg],
           es,
           set_sh_status b xs
             (set_block_offset b (status (global m) ! block_counter (global m) * int (block_size cfg))
               (set_status ((status (global m))[block_counter (global m) :=
                   wrap int_bits (status (global m) ! block_counter (global m) + 1)]) m)))
    \<and> length xs = length (sh_status (shared m b))
    \<and> filter (\<lambda>e. is_atomic_add (snd (snd e))) es
        = [(b, 0, Atomic_add (int (block_counter (global m))) 1)]"
proof -
  let ?old = "status (global m) ! block_counter (global m)"
  let ?bs = "block_size cfg"
  let ?m1 = "set_block_offset b (?old * int ?bs)
               (set_status ((status (global m))[block_counter (global m) := wrap int_bits (?old + 1)]) m)"
  have off_eq: "to_index cfg (arith cfg (?old * to_index cfg (int ?bs))) = ?old * int ?bs"
    using handle_in_range(1) [OF w old bound assms(1)] .
  from ctor_pre_zero [OF assms(2,3)]
  obtain xs0 es0 where p0: "ctor_pre cfg b 0 m =
      Inr ((), (b, 0, Atomic_add (int (block_counter (global m))) 1) #
               (b, 0, Store_offset (?old * int ?bs)) # es0, set_sh_status b xs0 ?m1)"
    and l0: "length xs0 = length (sh_status (shared m b))"
    and e0: "\<forall>e \<in> set es0. \<not> is_atomic_add (snd (snd e))"
    unfolding off_eq by blast
  let ?m2 = "set_sh_status b xs0 ?m1"
  have "0 \<notin> set [1..<?bs]" by simp
  moreover have "local_dependency_count cfg \<le> length (sh_status (shared ?m2 b))"
    using assms(3) l0 by simp
  ultimately obtain us xs es1 where
    p1: "for_lanes (ctor_pre cfg b) [1..<?bs] ?m2 = Inr (us, es1, set_sh_status b xs ?m2)"
    and l1: "length xs = length (sh_status (shared ?m2 b))"
    and e1: "\<forall>e \<in> set es1. \<not> is_atomic_add (snd (snd e))"
    using for_lanes_pre_others by blast
  let ?m3 = "set_sh_status b xs ?m1"
  have upt: "[0..<?bs] = 0 # [1..<?bs]"
    using assms(1) by (simp add: upt_conv_Cons)
  let ?es_pre = "(b, 0, Atomic_add (int (block_counter (global m))) 1) #
               (b, 0, Store_offset (?old * int ?bs)) # es0 @ es1"
  have pre: "for_lanes (ctor_pre cfg b) [0..<?bs] m = Inr (() # us, ?es_pre, ?m3)"
    unfolding upt using p0 p1 by (simp add: and_then_def return_prog_def)
  have off: "block_offset (shared ?m3 b) = ?old * int ?bs"
    by simp
  let ?es = "?es_pre @ map (\<lambda>t. (b, t, Syncthreads)) [0..<?bs]
       @ concat (map (\<lambda>t. [(b, t, Load_offset), (b, t, Load_offset)]) [0..<?bs])"
  have hs: "map (\<lambda>t. \<lparr>blockIdx = b, threadIdx = t,
                 work_id = to_index cfg (arith cfg (?old * int ?bs + to_index cfg (int t))
                                           sdiv int (subwarp_size cfg)),
                 block_id = to_index cfg ((?old * int ?bs) sdiv int ?bs)\<rparr>) [0..<?bs]
      = map (\<lambda>t. \<lparr>blockIdx = b, threadIdx = t,
                 work_id = (?old * int ?bs + int t) sdiv int (subwarp_size cfg),
                 block_id = (?old * int ?bs) sdiv int ?bs\<rparr>) [0..<?bs]"
  proof (rule map_cong [OF refl])
    fix t assume "t \<in> set [0..<?bs]"
    then have t: "t < ?bs" by simp
    show "\<lparr>blockIdx = b, threadIdx = t,
                 work_id = to_index cfg (arith cfg (?old * int ?bs + to_index cfg (int t))
                                           sdiv int (subwarp_size cfg)),
                 block_id = to_index cfg ((?old * int ?bs) sdiv int ?bs)\<rparr>
        = \<lparr>blockIdx = b, threadIdx = t,
                 work_id = (?old * int ?bs + int t) sdiv int (subwarp_size cfg),
                 block_id = (?old * int ?bs) sdiv int ?bs\<rparr>"
      by (simp only: handle_in_range(2,3) [OF w old bound t])
  qed
  have "ctor_block cfg b m =
      Inr (map (\<lambda>t. \<lparr>blockIdx = b, threadIdx = t,
                 work_id = to_index cfg (arith cfg (?old * int ?bs + to_index cfg (int t))
                                           sdiv int (subwarp_size cfg)),
                 block_id = to_index cfg ((?old * int ?bs) sdiv int ?bs)\<rparr>) [0..<?bs], ?es, ?m3)"
    unfolding ctor_block_def
    by (simp add: and_then_def pre for_lanes_sync for_lanes_post)
  then have "ctor_block cfg b m =
      Inr (map (\<lambda>t. \<lparr>blockIdx = b, threadIdx = t,
                 work_id = (?old * int ?bs + int t) sdiv int (subwarp_size cfg),
                 block_id = (?old * int ?bs) sdiv int ?bs\<rparr>) [0..<?bs], ?es, ?m3)"
    by (simp only: hs)
  moreover have "length xs = length (sh_status (shared m b))"
    using l1 l0 by simp
  moreover have "filter (\<lambda>e. is_atomic_add (snd (snd e))) ?es
        = [(b, 0, Atomic_add (int (block_counter (global m))) 1)]"
    using e0 e1 by (simp add: filter_empty_conv filter_concat o_def)
  ultimately show ?thesis by blast
qed

lemma launch_result:
  assumes "0 < block_size cfg"
    and w: "0 < index_bits cfg"
    and "block_counter (global m) < length (status (global m))"
    and "\<forall>b \<in> set order. local_dependency_count cfg \<le> length (sh_status (shared m b))"
    and "0 \<le> status (global m) ! block_counter (global m)"
    and "(status (global m) ! block_counter (global m) + int (length order)) * int (block_size cfg)
           < 2 ^ (index_bits cfg - 1)"
    and "status (global m) ! block_counter (global m) + int (length order) < 2 ^ (int_bits - 1)"
  shows "\<exists>hss es m'. launch cfg order m = Inr (hss, es, m') \<and> length hss = length order \<and>
     (\<forall>k < length order. hss ! k =
        map (\<lambda>t. \<lparr>blockIdx = order ! k, threadIdx = t,
               work_id = ((status (global m) ! block_counter (global m) + int k) * int (block_size cfg) + int t)
                           sdiv int (subwarp_size cfg),
               block_id = ((status (global m) ! block_counter (global m) + int k) * int (block_size cfg))
                           sdiv int (block_size cfg)\<rparr>) [0..<block_size cfg])"
  using assms(3-7)
proof (induction order arbitrary: m)
  case Nil
  then show ?case by (simp add: return_prog_def)
next
  case (Cons b order)
  let ?c = "status (global m) ! block_counter (global m)"
  let ?bs = "block_size cfg"
  let ?h = "\<lambda>b c t. \<lparr>blockIdx = b, threadIdx = t,
               work_id = (c * int ?bs + int t) sdiv int (subwarp_size cfg),
               block_id = (c * int ?bs) sdiv int ?bs\<rparr>"
  from Cons.prems have b: "local_dependency_count cfg \<le> length (sh_status (shared m b))"
    by simp
  have c0: "0 \<le> ?c" by (rule Cons.prems(3))
  have eq: "?c + int (length (b # order)) = ?c + 1 + int (length order)"
    by simp
  have all: "(?c + 1 + int (length order)) * int ?bs < 2 ^ (index_bits cfg - 1)"
    using Cons.prems(4) by (simp only: eq)
  have "(?c + 1) * int ?bs \<le> (?c + 1 + int (length order)) * int ?bs"
    by (intro mult_right_mono) simp_all
  with all have one: "(?c + 1) * int ?bs < 2 ^ (index_bits cfg - 1)"
    by linarith
  have cnt: "?c + 1 + int (length order) < 2 ^ (int_bits - 1)"
    using Cons.prems(5) by (simp only: eq)
  have "?c + 1 < 2 ^ (int_bits - 1)" using cnt by linarith
  with c0 have wr: "wrap int_bits (?c + 1) = ?c + 1"
    by (intro wrap_id) (simp_all add: int_bits_def)
  from ctor_block_result [OF assms(1) Cons.prems(1) b w c0 one]
  obtain xs es where cb: "ctor_block cfg b m =
      Inr (map (?h b ?c) [0..<?bs], es,
           set_sh_status b xs
             (set_block_offset b (?c * int ?bs)
               (set_status ((status (global m))[block_counter (global m) := ?c + 1]) m)))"
    and l: "length xs = length (sh_status (shared m b))"
    unfolding wr by blast
  let ?m1 = "set_sh_status b xs
             (set_block_offset b (?c * int ?bs)
               (set_status ((status (global m))[block_counter (global m) := ?c + 1]) m))"
  have ctr1: "block_counter (global ?m1) < length (status (global ?m1))"
    using Cons.prems(1) by simp
  have c1: "status (global ?m1) ! block_counter (global ?m1) = ?c + 1"
    using Cons.prems(1) by simp
  have sh1: "\<forall>b' \<in> set order. local_dependency_count cfg \<le> length (sh_status (shared ?m1 b'))"
    using Cons.prems(2) l by simp
  have nn1: "0 \<le> status (global ?m1) ! block_counter (global ?m1)"
    unfolding c1 using c0 by simp
  have all1: "(status (global ?m1) ! block_counter (global ?m1) + int (length order)) * int ?bs
                < 2 ^ (index_bits cfg - 1)"
    using all by (simp only: c1)
  have cnt1: "status (global ?m1) ! block_counter (global ?m1) + int (length order) < 2 ^ (int_bits - 1)"
    using cnt by (simp only: c1)
  from Cons.IH [OF ctr1 sh1 nn1 all1 cnt1]
  obtain hss es' m' where r: "launch cfg order ?m1 = Inr (hss, es', m')"
    and len: "length hss = length order"
    and nth: "\<forall>k < length order. hss ! k =
        map (?h (order ! k) (status (global ?m1) ! block_counter (global ?m1) + int k)) [0..<?bs]"
    by blast
  have "launch cfg (b # order) m = Inr (map (?h b ?c) [0..<?bs] # hss, es @ es', m')"
    using cb r by (simp add: and_then_def return_prog_def)
  moreover have "length (map (?h b ?c) [0..<?bs] # hss) = length (b # order)"
    using len by simp
  moreover have "\<forall>k < length (b # order). (map (?h b ?c) [0..<?bs] # hss) ! k =
      map (?h ((b # order) ! k) (?c + int k)) [0..<?bs]"
  proof (intro allI impI)
    fix k assume k: "k < length (b # order)"
    show "(map (?h b ?c) [0..<?bs] # hss) ! k = map (?h ((b # order) ! k) (?c + int k)) [0..<?bs]"
    proof (cases k)
      case 0
      then show ?thesis by simp
    next
      case (Suc k')
      with k have "k' < length order" by simp
      with nth have "hss ! k' = map (?h (order ! k') (?c + 1 + int k')) [0..<?bs]"
        by (simp only: c1)
      with Suc show ?thesis by (simp add: add.assoc)
    qed
  qed
  ultimately show ?case by blast
qed

lemma lane_work_id:
  assumes "0 < ss" "ss dvd bs"
  shows "(int c * int bs + int t) sdiv int ss = int (c * (bs div ss) + t div ss)"
proof -
  from assms(2) obtain q where q: "bs = ss * q" by (auto simp: dvd_def)
  have "(c * bs + t) div ss = c * (bs div ss) + t div ss"
  proof -
    have "c * bs + t = t + (c * q) * ss" by (simp add: q ac_simps)
    then have "(c * bs + t) div ss = (t + (c * q) * ss) div ss" by (rule arg_cong)
    also have "\<dots> = c * q + t div ss"
      using assms(1) by simp
    also have "q = bs div ss" using assms(1) by (simp add: q)
    finally show ?thesis .
  qed
  moreover have "int c * int bs + int t = int (c * bs + t)" by simp
  ultimately show ?thesis
    using assms(1) by (simp only: sdiv_nonneg [OF of_nat_0_le_iff] nat_int)
qed

lemma block_block_id:
  assumes "0 < bs"
  shows "(int c * int bs) sdiv int bs = int c"
proof -
  have "int c * int bs = int (c * bs)" by simp
  then show ?thesis
    using assms by (simp only: sdiv_nonneg [OF of_nat_0_le_iff] nat_int) simp
qed

lemma lane_group_image:
  fixes ss bs :: nat
  assumes "0 < ss" "ss dvd bs"
  shows "(\<lambda>t. t div ss) ` {0..<bs} = {0..<bs div ss}"
proof
  show "(\<lambda>t. t div ss) ` {0..<bs} \<subseteq> {0..<bs div ss}"
  proof
    fix x assume "x \<in> (\<lambda>t. t div ss) ` {0..<bs}"
    then obtain t where "t < bs" "x = t div ss" by auto
    with assms show "x \<in> {0..<bs div ss}"
      by (auto simp: dvd_def div_less_iff_less_mult mult.commute)
  qed
  show "{0..<bs div ss} \<subseteq> (\<lambda>t. t div ss) ` {0..<bs}"
  proof
    fix j assume "j \<in> {0..<bs div ss}"
    then have "j < bs div ss" by simp
    with assms have "j * ss < bs"
      by (auto simp: dvd_def mult.commute)
    moreover have "j = (j * ss) div ss" using assms(1) by simp
    ultimately show "j \<in> (\<lambda>t. t div ss) ` {0..<bs}"
      by (metis atLeastLessThan_iff image_eqI le0)
  qed
qed

lemma owned_range:
  assumes "0 < ss" "ss dvd bs"
  shows "(\<lambda>t. int (c * (bs div ss) + t div ss)) ` {0..<bs}
           = {int c * int (bs div ss) ..< int c * int (bs div ss) + int (bs div ss)}"
proof -
  have "(\<lambda>t. int (c * (bs div ss) + t div ss)) ` {0..<bs}
      = (\<lambda>j. int (c * (bs div ss)) + int j) ` ((\<lambda>t. t div ss) ` {0..<bs})"
    by (simp add: image_image)
  also have "\<dots> = (\<lambda>j. int (c * (bs div ss)) + int j) ` {0..<bs div ss}"
    by (simp only: lane_group_image [OF assms])
  also have "\<dots> = {int c * int (bs div ss) ..< int c * int (bs div ss) + int (bs div ss)}"
  proof (intro set_eqI iffI)
    fix x assume "x \<in> (\<lambda>j. int (c * (bs div ss)) + int j) ` {0..<bs div ss}"
    then show "x \<in> {int c * int (bs div ss) ..< int c * int (bs div ss) + int (bs div ss)}"
      by auto
  next
    fix x assume x: "x \<in> {int c * int (bs div ss) ..< int c * int (bs div ss) + int (bs div ss)}"
    then have "nat (x - int c * int (bs div ss)) \<in> {0..<bs div ss}" by auto
    moreover from x have "x = int (c * (bs div ss)) + int (nat (x - int c * int (bs div ss)))" by auto
    ultimately show "x \<in> (\<lambda>j. int (c * (bs div ss)) + int j) ` {0..<bs div ss}"
      by (rule rev_image_eqI)
  qed
  finally show ?thesis .
qed

lemma lanes_work_ids:
  assumes "0 < subwarp_size cfg" "subwarp_size cfg dvd block_size cfg"
  shows "work_id ` set (map (\<lambda>t. \<lparr>blockIdx = b, threadIdx = t,
               work_id = (int c * int (block_size cfg) + int t) sdiv int (subwarp_size cfg),
               block_id = bid\<rparr>) [0..<block_size cfg])
         = {int c * int (local_dependency_count cfg)
             ..< int c * int (local_dependency_count cfg) + int (local_dependency_count cfg)}"
proof -
  have "work_id ` set (map (\<lambda>t. \<lparr>blockIdx = b, threadIdx = t,
               work_id = (int c * int (block_size cfg) + int t) sdiv int (subwarp_size cfg),
               block_id = bid\<rparr>) [0..<block_size cfg])
      = (\<lambda>t. (int c * int (block_size cfg) + int t) sdiv int (subwarp_size cfg)) ` {0..<block_size cfg}"
    by (simp add: image_image)
  also have "\<dots> = (\<lambda>t. int (c * (block_size cfg div subwarp_size cfg) + t div subwarp_size cfg))
                      ` {0..<block_size cfg}"
    by (simp only: lane_work_id [OF assms])
  also have "\<dots> = {int c * int (local_dependency_count cfg)
             ..< int c * int (local_dependency_count cfg) + int (local_dependency_count cfg)}"
    unfolding local_dependency_count_def by (rule owned_range [OF assms])
  finally show ?thesis .
qed

lemma tiles_ordered:
  fixes cap :: nat
  assumes "i < j" "x \<in> {int i * int cap ..< int i * int cap + int cap}"
    "y \<in> {int j * int cap ..< int j * int cap + int cap}"
  shows "x < y"
proof -
  from assms(1) have "Suc i \<le> j" by simp
  then have "Suc i * cap \<le> j * cap" by (rule mult_le_mono1)
  then have "int i * int cap + int cap \<le> int j * int cap"
    by (metis mult_Suc of_nat_add of_nat_mult of_nat_le_iff add.commute)
  with assms(2,3) show ?thesis by simp
qed

lemma tiles_disjoint:
  fixes cap :: nat
  assumes "i \<noteq> j"
  shows "{int i * int cap ..< int i * int cap + int cap}
          \<inter> {int j * int cap ..< int j * int cap + int cap} = {}"
proof (rule ccontr)
  assume "\<not> ?thesis"
  then obtain x where x: "x \<in> {int i * int cap ..< int i * int cap + int cap}"
    "x \<in> {int j * int cap ..< int j * int cap + int cap}" by blast
  from assms consider "i < j" | "j < i" by linarith
  then show False
  proof cases
    case 1 from tiles_ordered [OF 1 x] show False by simp
  next
    case 2 from tiles_ordered [OF 2 x(2) x(1)] show False by simp
  qed
qed

lemma tiles_cover:
  fixes cap :: nat
  shows "(\<Union>k<n. {int k * int cap ..< int k * int cap + int cap}) = {0 ..< int n * int cap}"
proof (induction n)
  case 0
  then show ?case by simp
next
  case (Suc n)
  have "(\<Union>k<Suc n. {int k * int cap ..< int k * int cap + int cap})
      = {0 ..< int n * int cap} \<union> {int n * int cap ..< int n * int cap + int cap}"
    by (simp add: lessThan_Suc Suc Un_commute)
  also have "\<dots> = {0 ..< int (Suc n) * int cap}"
  proof -
    have "0 \<le> int n * int cap" "int n * int cap \<le> int n * int cap + int cap" by simp_all
    then have "{0 ..< int n * int cap} \<union> {int n * int cap ..< int n * int cap + int cap}
        = {0 ..< int n * int cap + int cap}"
      by (rule ivl_disj_un_two)
    then show ?thesis by (simp add: algebra_simps)
  qed
  finally show ?case .
qed

section \<open>Facts about the events of the member functions\<close>

lemma wait_events:
  assumes "wait cfg s d m later = Inr (u, es, m')" "e \<in> set es"
  shows "\<not> writes_not_ready (snd (snd e))"
proof -
  let ?b = "blockIdx s" and ?t = "threadIdx s"
  let ?cap = "local_dependency_count cfg"
  from assms(1) have cap: "?cap \<noteq> 0" by (auto simp: wait_def split: if_splits)
  show ?thesis
  proof (cases "get_lane cfg s = 0")
    case False
    with assms cap show ?thesis by (auto simp: wait_def Let_def)
  next
    case True
    let ?a = "if d sdiv int ?cap = block_id s then Load_acquire_shared (d smod int ?cap) else Load_acquire d"
    from assms(1) cap True obtain u0 es0 m0 where
      sp: "spin ?b ?t ?a (m # later) = Inr (u0, es0, m0)" and es: "es = es0 @ [(?b, ?t, Tile_sync)]"
      by (auto simp: wait_def Let_def split: sum.splits if_splits)
    from spin_events [OF sp] es assms(2) have "snd (snd e) = ?a \<or> snd (snd e) = Tile_sync"
      by auto
    then show ?thesis by (auto split: if_splits)
  qed
qed

lemma peek_events:
  assumes "peek cfg s d m = Inr (p, es, m')" "e \<in> set es"
  shows "\<not> writes_not_ready (snd (snd e))"
  using assms
  by (auto simp: peek_def Let_def and_then_def return_prog_def perform_def
      split: if_splits sum.splits option.splits)

lemma mark_ready_events:
  assumes "mark_ready cfg s m = Inr (u, es, m')" "e \<in> set es"
  shows "\<not> writes_not_ready (snd (snd e))"
proof (cases "get_lane cfg s = 0")
  case True
  with assms show ?thesis
    by (auto simp: mark_ready_lane0_cases split: if_splits option.splits)
next
  case False
  with assms show ?thesis by (auto simp: mark_ready_other)
qed

lemma scheduler_event_harmless:
  "scheduler_event cfg e \<Longrightarrow> \<not> writes_not_ready (snd (snd e))"
proof (induction rule: scheduler_event.induct)
  case (of_get_work_id s m r es m' e)
  then show ?case by (simp add: get_work_id_def return_prog_def)
next
  case (of_wait s d m later u es m' e)
  then show ?case by (rule wait_events)
next
  case (of_peek s d m p es m' e)
  then show ?case by (rule peek_events)
next
  case (of_mark_ready s m u es m' e)
  then show ?case by (rule mark_ready_events)
qed

lemma flags_advance_refl: "flags_advance xs xs"
  by (simp add: flags_advance_def)

lemma flags_advance_trans:
  assumes "flags_advance xs ys" "flags_advance ys zs"
  shows "flags_advance xs zs"
  unfolding flags_advance_def
proof (intro conjI allI impI)
  show "length zs = length xs"
    using assms by (simp add: flags_advance_def)
  fix i assume i: "i < length xs"
  with assms have "ys ! i = xs ! i \<or> ys ! i = 1" "zs ! i = ys ! i \<or> zs ! i = 1"
    by (simp_all add: flags_advance_def)
  then show "zs ! i = xs ! i \<or> zs ! i = 1" by auto
qed

lemma flags_advance_update: "flags_advance xs (xs[i := 1])"
proof (cases "i < length xs")
  case True
  then show ?thesis by (simp add: flags_advance_def nth_list_update)
next
  case False
  then show ?thesis by (simp add: flags_advance_def)
qed

lemma step_advance:
  assumes "\<not> writes_not_ready a" "step b a m = Inr (v, m')"
  shows "flags_advance (status (global m)) (status (global m'))
    \<and> (\<forall>b'. flags_advance (sh_status (shared m b')) (sh_status (shared m' b')))"
  using assms
  by (cases a) (auto simp: wr_def flags_advance_refl flags_advance_update split: option.splits if_splits)

lemma run_events_advance:
  assumes "\<forall>e \<in> set es. \<not> writes_not_ready (snd (snd e))" "run_events es m = Inr m'"
  shows "flags_advance (status (global m)) (status (global m'))
    \<and> (\<forall>b'. flags_advance (sh_status (shared m b')) (sh_status (shared m' b')))"
  using assms
proof (induction es arbitrary: m)
  case Nil
  then show ?case by (simp add: flags_advance_refl)
next
  case (Cons e es)
  obtain b t a where e: "e = (b, t, a)" by (cases e)
  from Cons.prems(2) e obtain v m1 where st: "step b a m = Inr (v, m1)"
    and rest: "run_events es m1 = Inr m'"
    by (auto split: sum.splits)
  from Cons.prems(1) e have "\<not> writes_not_ready a" by simp
  from step_advance [OF this st] Cons.IH [OF _ rest] Cons.prems(1)
  show ?case by (auto intro: flags_advance_trans)
qed

section \<open>The claims\<close>

text \<open>
  C1. However many physical blocks are launched, and in whichever order they start, the
  block at position \<open>k\<close> of the start order (counted from 0) fetches \<open>k\<close> from the counter,
  which starts at the zero the storage constructor wrote, and the work ids owned by its
  lanes are exactly the half-open range from \<open>k * capacity\<close> to \<open>k * capacity + capacity\<close>,
  where \<open>capacity = block_size / subwarp_size\<close>. These ranges are pairwise disjoint, their
  union is \<open>[0, G * capacity)\<close> for \<open>G\<close> launched blocks, the first block to start owns the
  range at 0 and every later block owns strictly larger ids than every earlier one. The
  configuration is one in which \<open>subwarp_size\<close> divides \<open>block_size\<close>, and the launch is
  one in which no integer of the source overflows: the number of lanes, \<open>G * block_size\<close>,
  is below \<open>2 ^ (index_bits - 1)\<close>, the number of blocks is below \<open>2 ^ 31\<close> (the counter is
  an \<open>int\<close>), and \<open>num_elements + 1\<close> is representable in \<open>size_type\<close>.
\<close>

theorem claimed_ranges_tile:
  assumes "0 < subwarp_size cfg" and "subwarp_size cfg dvd block_size cfg"
    and "0 < block_size cfg"
    and "syncfree_storage_ctor junk status_array num_elements = Some (global m)"
    and "\<forall>b \<in> set order. length (sh_status (shared m b)) = local_dependency_count cfg"
    and "num_elements + 1 < 2 ^ size_bits"
    and "0 < index_bits cfg"
    and "int (length order) * int (block_size cfg) < 2 ^ (index_bits cfg - 1)"
    and "int (length order) < 2 ^ (int_bits - 1)"
  shows "\<exists>hss es m'. launch cfg order m = Inr (hss, es, m') \<and> length hss = length order
     \<and> (\<forall>k < length order.
           (\<forall>s \<in> set (hss ! k). blockIdx s = order ! k \<and> block_id s = int k) \<and>
           work_id ` set (hss ! k) =
             {int k * int (local_dependency_count cfg)
               ..< int k * int (local_dependency_count cfg) + int (local_dependency_count cfg)})
     \<and> (\<Union>k < length order. work_id ` set (hss ! k))
           = {0 ..< int (length order) * int (local_dependency_count cfg)}
     \<and> (\<forall>i < length order. \<forall>j < length order. i \<noteq> j \<longrightarrow>
           work_id ` set (hss ! i) \<inter> work_id ` set (hss ! j) = {})
     \<and> (\<forall>j < length order. \<forall>i < j.
           \<forall>x \<in> work_id ` set (hss ! i). \<forall>y \<in> work_id ` set (hss ! j). x < y)"
proof -
  let ?cap = "local_dependency_count cfg"
  let ?I = "\<lambda>k. {int k * int ?cap ..< int k * int ?cap + int ?cap}"
  have sh: "\<forall>b \<in> set order. ?cap \<le> length (sh_status (shared m b))"
    using assms(5) by simp
  from assms(4) have g: "global m = \<lparr>status = replicate (num_elements + 1) 0, block_counter = num_elements\<rparr>"
    by (simp only: storage_ctor_result [OF assms(6)] option.inject)
  have "replicate (num_elements + 1) (0::int) ! num_elements = 0"
    by (rule nth_replicate) simp
  then have zero: "status (global m) ! block_counter (global m) = 0"
    by (simp only: g syncfree_storage.simps)
  have ctr: "block_counter (global m) < length (status (global m))"
    by (simp add: g)
  have nn: "0 \<le> status (global m) ! block_counter (global m)"
    and all: "(status (global m) ! block_counter (global m) + int (length order)) * int (block_size cfg)
           < 2 ^ (index_bits cfg - 1)"
    and cnt: "status (global m) ! block_counter (global m) + int (length order) < 2 ^ (int_bits - 1)"
    using assms(8,9) by (simp_all add: zero)
  from launch_result [OF assms(3,7) ctr sh nn all cnt]
  obtain hss es m' where r: "launch cfg order m = Inr (hss, es, m')"
    and len: "length hss = length order"
    and nth: "\<forall>k < length order. hss ! k =
        map (\<lambda>t. \<lparr>blockIdx = order ! k, threadIdx = t,
               work_id = ((status (global m) ! block_counter (global m) + int k) * int (block_size cfg) + int t)
                           sdiv int (subwarp_size cfg),
               block_id = ((status (global m) ! block_counter (global m) + int k) * int (block_size cfg))
                           sdiv int (block_size cfg)\<rparr>) [0..<block_size cfg]"
    by blast
  have own: "work_id ` set (hss ! k) = ?I k"
    and phys: "\<forall>s \<in> set (hss ! k). blockIdx s = order ! k \<and> block_id s = int k"
    if "k < length order" for k
  proof -
    from nth that have eq: "hss ! k =
        map (\<lambda>t. \<lparr>blockIdx = order ! k, threadIdx = t,
               work_id = (int k * int (block_size cfg) + int t) sdiv int (subwarp_size cfg),
               block_id = (int k * int (block_size cfg)) sdiv int (block_size cfg)\<rparr>) [0..<block_size cfg]"
      by (simp add: zero)
    show "work_id ` set (hss ! k) = ?I k"
      unfolding eq by (rule lanes_work_ids [OF assms(1,2)])
    show "\<forall>s \<in> set (hss ! k). blockIdx s = order ! k \<and> block_id s = int k"
      unfolding eq using block_block_id [OF assms(3), of k] by simp
  qed
  have "(\<Union>k < length order. work_id ` set (hss ! k)) = (\<Union>k < length order. ?I k)"
    using own by simp
  then have cover: "(\<Union>k < length order. work_id ` set (hss ! k)) = {0 ..< int (length order) * int ?cap}"
    by (simp only: tiles_cover)
  have disj: "\<forall>i < length order. \<forall>j < length order. i \<noteq> j \<longrightarrow>
           work_id ` set (hss ! i) \<inter> work_id ` set (hss ! j) = {}"
    using own tiles_disjoint by simp
  have ord: "\<forall>j < length order. \<forall>i < j.
           \<forall>x \<in> work_id ` set (hss ! i). \<forall>y \<in> work_id ` set (hss ! j). x < y"
  proof (intro allI impI ballI)
    fix j i x y
    assume j: "j < length order" and i: "i < j"
      and x: "x \<in> work_id ` set (hss ! i)" and y: "y \<in> work_id ` set (hss ! j)"
    from i j have "i < length order" by simp
    with x own have "x \<in> ?I i" by simp
    moreover from y j own have "y \<in> ?I j" by simp
    ultimately show "x < y" using tiles_ordered [OF i] by blast
  qed
  from r len own phys cover disj ord show ?thesis
    by (intro exI conjI) (assumption | simp)+
qed

theorem claimed_ranges_tile_witness:
  "0 < subwarp_size \<lparr>block_size = 4, subwarp_size = 2, index_bits = 32\<rparr>
   \<and> subwarp_size \<lparr>block_size = 4, subwarp_size = 2, index_bits = 32\<rparr> dvd block_size \<lparr>block_size = 4, subwarp_size = 2, index_bits = 32\<rparr>
   \<and> 0 < block_size \<lparr>block_size = 4, subwarp_size = 2, index_bits = 32\<rparr>
   \<and> syncfree_storage_ctor (\<lambda>_. 7) [] 4 = Some \<lparr>status = [0, 0, 0, 0, 0], block_counter = 4\<rparr>
   \<and> (4::nat) + 1 < 2 ^ size_bits
   \<and> 0 < index_bits \<lparr>block_size = 4, subwarp_size = 2, index_bits = 32\<rparr>
   \<and> int (length [1, 0 :: nat]) * int (block_size \<lparr>block_size = 4, subwarp_size = 2, index_bits = 32\<rparr>) < 2 ^ (index_bits \<lparr>block_size = 4, subwarp_size = 2, index_bits = 32\<rparr> - 1)
   \<and> int (length [1, 0 :: nat]) < 2 ^ (int_bits - 1)
   \<and> (\<exists>hss es m'. launch \<lparr>block_size = 4, subwarp_size = 2, index_bits = 32\<rparr> [1, 0]
          \<lparr>global = \<lparr>status = [0, 0, 0, 0, 0], block_counter = 4\<rparr>,
           shared = (\<lambda>_. \<lparr>sh_status = [7, 7], block_offset = 99\<rparr>)\<rparr> = Inr (hss, es, m')
        \<and> length hss = 2
        \<and> work_id ` set (hss ! 0) = {0..<2}
        \<and> work_id ` set (hss ! 1) = {2..<4}
        \<and> work_id ` set (hss ! 0) \<union> work_id ` set (hss ! 1) = {0..<4})"
proof -
  have h1: "0 < subwarp_size \<lparr>block_size = 4, subwarp_size = 2, index_bits = 32\<rparr>" by simp
  have h2: "subwarp_size \<lparr>block_size = 4, subwarp_size = 2, index_bits = 32\<rparr> dvd block_size \<lparr>block_size = 4, subwarp_size = 2, index_bits = 32\<rparr>"
    by simp
  have h3: "0 < block_size \<lparr>block_size = 4, subwarp_size = 2, index_bits = 32\<rparr>" by simp
  have h6: "(4::nat) + 1 < 2 ^ size_bits"
    by (simp add: size_bits_def)
  have h7: "0 < index_bits \<lparr>block_size = 4, subwarp_size = 2, index_bits = 32\<rparr>" by simp
  have h8: "int (length [1, 0 :: nat]) * int (block_size \<lparr>block_size = 4, subwarp_size = 2, index_bits = 32\<rparr>) < 2 ^ (index_bits \<lparr>block_size = 4, subwarp_size = 2, index_bits = 32\<rparr> - 1)"
    by simp
  have h9: "int (length [1, 0 :: nat]) < 2 ^ (int_bits - 1)"
    by (simp add: int_bits_def)
  have h4: "syncfree_storage_ctor (\<lambda>_. 7) [] 4 =
     Some (global \<lparr>global = \<lparr>status = [0, 0, 0, 0, 0], block_counter = 4\<rparr>,
           shared = (\<lambda>_. \<lparr>sh_status = [7, 7], block_offset = 99\<rparr>)\<rparr>)"
    using storage_ctor_result [OF h6, of "\<lambda>_. 7" "[]"] by (simp add: eval_nat_numeral)
  have h5: "\<forall>b \<in> set [1, 0]. length (sh_status (shared \<lparr>global = \<lparr>status = [0, 0, 0, 0, 0], block_counter = 4\<rparr>,
           shared = (\<lambda>_. \<lparr>sh_status = [7, 7], block_offset = 99\<rparr>)\<rparr> b))
        = local_dependency_count \<lparr>block_size = 4, subwarp_size = 2, index_bits = 32\<rparr>"
    by (simp add: local_dependency_count_def)
  from claimed_ranges_tile [OF h1 h2 h3 h4 h5 h6 h7 h8 h9]
  obtain hss es m' where r: "launch \<lparr>block_size = 4, subwarp_size = 2, index_bits = 32\<rparr> [1, 0]
          \<lparr>global = \<lparr>status = [0, 0, 0, 0, 0], block_counter = 4\<rparr>,
           shared = (\<lambda>_. \<lparr>sh_status = [7, 7], block_offset = 99\<rparr>)\<rparr> = Inr (hss, es, m')"
    and len: "length hss = length [1, 0 :: nat]"
    and own: "\<forall>k < length [1, 0 :: nat].
           (\<forall>s \<in> set (hss ! k). blockIdx s = [1, 0] ! k \<and> block_id s = int k) \<and>
           work_id ` set (hss ! k) =
             {int k * int (local_dependency_count \<lparr>block_size = 4, subwarp_size = 2, index_bits = 32\<rparr>)
               ..< int k * int (local_dependency_count \<lparr>block_size = 4, subwarp_size = 2, index_bits = 32\<rparr>)
                     + int (local_dependency_count \<lparr>block_size = 4, subwarp_size = 2, index_bits = 32\<rparr>)}"
    by (elim exE conjE) (rule that; assumption)
  have k0: "(0::nat) < length [1, 0 :: nat]" and k1: "(1::nat) < length [1, 0 :: nat]"
    by simp_all
  from own k0 have "(\<forall>s \<in> set (hss ! 0). blockIdx s = [1, 0] ! 0 \<and> block_id s = int 0) \<and>
           work_id ` set (hss ! 0) =
             {int 0 * int (local_dependency_count \<lparr>block_size = 4, subwarp_size = 2, index_bits = 32\<rparr>)
               ..< int 0 * int (local_dependency_count \<lparr>block_size = 4, subwarp_size = 2, index_bits = 32\<rparr>)
                     + int (local_dependency_count \<lparr>block_size = 4, subwarp_size = 2, index_bits = 32\<rparr>)}"
    by blast
  then have o0: "work_id ` set (hss ! 0) = {0..<2}"
    by (simp add: local_dependency_count_def)
  from own k1 have "(\<forall>s \<in> set (hss ! 1). blockIdx s = [1, 0] ! 1 \<and> block_id s = int 1) \<and>
           work_id ` set (hss ! 1) =
             {int 1 * int (local_dependency_count \<lparr>block_size = 4, subwarp_size = 2, index_bits = 32\<rparr>)
               ..< int 1 * int (local_dependency_count \<lparr>block_size = 4, subwarp_size = 2, index_bits = 32\<rparr>)
                     + int (local_dependency_count \<lparr>block_size = 4, subwarp_size = 2, index_bits = 32\<rparr>)}"
    by blast
  then have o1: "work_id ` set (hss ! 1) = {2..<4}"
    by (simp add: local_dependency_count_def)
  have "{0..<2} \<union> {2..<4} = {0..<4::int}" by auto
  with o0 o1 have un: "work_id ` set (hss ! 0) \<union> work_id ` set (hss ! 1) = {0..<4}"
    by simp
  from len have len2: "length hss = 2" by simp
  have ex: "\<exists>hss es m'. launch \<lparr>block_size = 4, subwarp_size = 2, index_bits = 32\<rparr> [1, 0]
          \<lparr>global = \<lparr>status = [0, 0, 0, 0, 0], block_counter = 4\<rparr>,
           shared = (\<lambda>_. \<lparr>sh_status = [7, 7], block_offset = 99\<rparr>)\<rparr> = Inr (hss, es, m')
        \<and> length hss = 2
        \<and> work_id ` set (hss ! 0) = {0..<2}
        \<and> work_id ` set (hss ! 1) = {2..<4}
        \<and> work_id ` set (hss ! 0) \<union> work_id ` set (hss ! 1) = {0..<4}"
    using r len2 o0 o1 un by (intro exI [of _ hss] exI [of _ es] exI [of _ m'] conjI) (rule refl | blast)+
  have h4': "syncfree_storage_ctor (\<lambda>_. 7) [] 4 = Some \<lparr>status = [0, 0, 0, 0, 0], block_counter = 4\<rparr>"
    using h4 by simp
  show ?thesis
    by (intro conjI) (fact h1, fact h2, fact h3, fact h4', fact h6, fact h7, fact h8, fact h9, fact ex)
qed

text \<open>
  C2. Every call of \<open>mark_ready\<close> first passes the barrier of the lane-group; after it the
  designated lane (lane 0 of the lane-group) stores 1 with \<open>store_release_shared\<close> to the
  local slot of the caller's work id and then stores 1 with \<open>store_release\<close> to the global
  flag of the caller's work id, and both flags hold 1 afterwards. The other lanes perform
  the barrier only.
\<close>

theorem mark_ready_effect_order:
  assumes "0 < local_dependency_count cfg" "0 \<le> work_id s"
    "nat (work_id s) < length (status (global m))"
    "length (sh_status (shared m (blockIdx s))) = local_dependency_count cfg"
  shows "\<exists>m'. mark_ready cfg s m =
           Inr ((), (blockIdx s, threadIdx s, Tile_sync) #
                    (if get_lane cfg s = 0
                     then [(blockIdx s, threadIdx s,
                              Store_release_shared (int (nat (work_id s) mod local_dependency_count cfg)) 1),
                           (blockIdx s, threadIdx s, Store_release (work_id s) 1)]
                     else []), m')
         \<and> (get_lane cfg s = 0 \<longrightarrow>
              sh_status (shared m' (blockIdx s)) ! (nat (work_id s) mod local_dependency_count cfg) = 1
              \<and> status (global m') ! nat (work_id s) = 1)"
proof (cases "get_lane cfg s = 0")
  case True
  with assms show ?thesis
    by (simp add: mark_ready_designated)
next
  case False
  then show ?thesis
    by (simp add: mark_ready_other)
qed

theorem mark_ready_effect_order_witness:
  "0 < local_dependency_count \<lparr>block_size = 4, subwarp_size = 2, index_bits = 32\<rparr>
   \<and> (0::int) \<le> 1 \<and> nat 1 < length [0, 0, 0, 0, 0 :: int]
   \<and> length [0, 0 :: int] = local_dependency_count \<lparr>block_size = 4, subwarp_size = 2, index_bits = 32\<rparr>
   \<and> (\<exists>m'. mark_ready \<lparr>block_size = 4, subwarp_size = 2, index_bits = 32\<rparr>
          \<lparr>blockIdx = 0, threadIdx = 2, work_id = 1, block_id = 0\<rparr>
          \<lparr>global = \<lparr>status = [0, 0, 0, 0, 0], block_counter = 4\<rparr>,
           shared = (\<lambda>_. \<lparr>sh_status = [0, 0], block_offset = 0\<rparr>)\<rparr>
        = Inr ((), [(0, 2, Tile_sync), (0, 2, Store_release_shared 1 1), (0, 2, Store_release 1 1)], m')
        \<and> sh_status (shared m' 0) ! 1 = 1 \<and> status (global m') ! 1 = 1)"
  using mark_ready_effect_order [of "\<lparr>block_size = 4, subwarp_size = 2, index_bits = 32\<rparr>"
     "\<lparr>blockIdx = 0, threadIdx = 2, work_id = 1, block_id = 0\<rparr>"
     "\<lparr>global = \<lparr>status = [0, 0, 0, 0, 0], block_counter = 4\<rparr>,
      shared = (\<lambda>_. \<lparr>sh_status = [0, 0], block_offset = 0\<rparr>)\<rparr>"]
  by (simp add: local_dependency_count_def get_lane_def)

text \<open>
  C3. For a dependency \<open>d\<close> (a work id, so \<open>0 \<le> d\<close>), \<open>wait d\<close> treats \<open>d\<close> as local exactly
  when \<open>d\<close> divided by \<open>block_size / subwarp_size\<close> is the caller's block id. The designated
  lane then loads, with \<open>load_acquire_shared\<close>, the local slot \<open>d mod (block_size /
  subwarp_size)\<close>, and otherwise, with \<open>load_acquire\<close>, the global flag \<open>d\<close>; it repeats this
  one load for as long as the word it finds is 0, and does nothing else before the barrier
  of the lane-group, which every lane performs last. A wait that never finds the flag set
  does not return.
\<close>

theorem wait_classify_spin_sync:
  assumes "0 < local_dependency_count cfg" and "0 \<le> d"
    and "\<forall>m' \<in> set (m # later). nat d < length (status (global m')) \<and>
           length (sh_status (shared m' (blockIdx s))) = local_dependency_count cfg"
  shows "wait cfg s d m later =
    (let cap = local_dependency_count cfg;
         is_local = (d div int cap = block_id s);
         target = (if is_local then Load_acquire_shared (int (nat d mod cap)) else Load_acquire d);
         flag = (\<lambda>m'. if is_local then sh_status (shared m' (blockIdx s)) ! (nat d mod cap)
                       else status (global m') ! nat d)
     in if get_lane cfg s = 0
        then (case dropWhile (\<lambda>m'. flag m' = 0) (m # later) of
                [] \<Rightarrow> Inl Spinning
              | m' # _ \<Rightarrow>
                  Inr ((), replicate (Suc (length (takeWhile (\<lambda>m'. flag m' = 0) (m # later))))
                             (blockIdx s, threadIdx s, target)
                           @ [(blockIdx s, threadIdx s, Tile_sync)], m'))
        else Inr ((), [(blockIdx s, threadIdx s, Tile_sync)], m))"
proof (cases "get_lane cfg s = 0")
  case lane: True
  have dv: "d sdiv int (local_dependency_count cfg) = d div int (local_dependency_count cfg)"
    using assms(1,2) by (simp add: sdiv_nonneg zdiv_int)
  show ?thesis
  proof (cases "d div int (local_dependency_count cfg) = block_id s")
    case True
    with dv have "d sdiv int (local_dependency_count cfg) = block_id s" by simp
    moreover have "\<forall>m' \<in> set (m # later).
           length (sh_status (shared m' (blockIdx s))) = local_dependency_count cfg"
      using assms(3) by blast
    ultimately have w: "wait cfg s d m later = (case dropWhile (\<lambda>m'. sh_status (shared m' (blockIdx s)) ! (nat d mod local_dependency_count cfg) = 0) (m # later) of
        [] \<Rightarrow> Inl Spinning
      | m' # _ \<Rightarrow> Inr ((),
          replicate (Suc (length (takeWhile (\<lambda>m'. sh_status (shared m' (blockIdx s)) ! (nat d mod local_dependency_count cfg) = 0) (m # later))))
            (blockIdx s, threadIdx s, Load_acquire_shared (int (nat d mod local_dependency_count cfg)))
          @ [(blockIdx s, threadIdx s, Tile_sync)], m'))"
      by (rule wait_lane0_local [OF assms(1) lane assms(2)])
    show ?thesis
      by (simp only: Let_def lane True if_True simp_thms w)
  next
    case False
    with dv have "d sdiv int (local_dependency_count cfg) \<noteq> block_id s" by simp
    moreover have "\<forall>m' \<in> set (m # later). nat d < length (status (global m'))"
      using assms(3) by blast
    ultimately have w: "wait cfg s d m later =
     (case dropWhile (\<lambda>m'. status (global m') ! nat d = 0) (m # later) of
        [] \<Rightarrow> Inl Spinning
      | m' # _ \<Rightarrow> Inr ((),
          replicate (Suc (length (takeWhile (\<lambda>m'. status (global m') ! nat d = 0) (m # later))))
            (blockIdx s, threadIdx s, Load_acquire d)
          @ [(blockIdx s, threadIdx s, Tile_sync)], m'))"
      by (rule wait_lane0_global [OF assms(1) lane assms(2)])
    show ?thesis
      by (simp only: Let_def lane False if_True if_False simp_thms w)
  qed
next
  case False
  with assms(1) show ?thesis
    by (simp add: wait_other_lane Let_def)
qed

theorem wait_classify_spin_sync_witness:
  "0 < local_dependency_count \<lparr>block_size = 4, subwarp_size = 2, index_bits = 32\<rparr>
   \<and> (0::int) \<le> 2
   \<and> nat 2 < length [0, 0, 0, 0, 0 :: int]
   \<and> length [0, 0 :: int] = local_dependency_count \<lparr>block_size = 4, subwarp_size = 2, index_bits = 32\<rparr>
   \<and> length [1, 0 :: int] = local_dependency_count \<lparr>block_size = 4, subwarp_size = 2, index_bits = 32\<rparr>
   \<and> wait \<lparr>block_size = 4, subwarp_size = 2, index_bits = 32\<rparr>
        \<lparr>blockIdx = 0, threadIdx = 2, work_id = 3, block_id = 1\<rparr> 2
        \<lparr>global = \<lparr>status = [0, 0, 0, 0, 0], block_counter = 4\<rparr>,
         shared = (\<lambda>_. \<lparr>sh_status = [0, 0], block_offset = 4\<rparr>)\<rparr>
        [\<lparr>global = \<lparr>status = [0, 0, 0, 0, 0], block_counter = 4\<rparr>,
          shared = (\<lambda>_. \<lparr>sh_status = [1, 0], block_offset = 4\<rparr>)\<rparr>]
     = Inr ((), [(0, 2, Load_acquire_shared 0), (0, 2, Load_acquire_shared 0), (0, 2, Tile_sync)],
            \<lparr>global = \<lparr>status = [0, 0, 0, 0, 0], block_counter = 4\<rparr>,
             shared = (\<lambda>_. \<lparr>sh_status = [1, 0], block_offset = 4\<rparr>)\<rparr>)"
  using wait_classify_spin_sync [of "\<lparr>block_size = 4, subwarp_size = 2, index_bits = 32\<rparr>" 2
        "\<lparr>global = \<lparr>status = [0, 0, 0, 0, 0], block_counter = 4\<rparr>,
         shared = (\<lambda>_. \<lparr>sh_status = [0, 0], block_offset = 4\<rparr>)\<rparr>"
        "[\<lparr>global = \<lparr>status = [0, 0, 0, 0, 0], block_counter = 4\<rparr>,
          shared = (\<lambda>_. \<lparr>sh_status = [1, 0], block_offset = 4\<rparr>)\<rparr>]"
        "\<lparr>blockIdx = 0, threadIdx = 2, work_id = 3, block_id = 1\<rparr>"]
  by (simp add: local_dependency_count_def get_lane_def)

text \<open>
  C4. In the constructor, as the lanes of one physical block execute it, exactly one event
  is an atomic fetch-and-add: lane 0 adds 1 to the block counter, once. With \<open>fetched\<close> the
  value it returns, the block's base offset in work items (the work id of lane 0, the least
  id the block owns) is \<open>fetched * capacity\<close> with \<open>capacity = block_size / subwarp_size\<close>,
  the number of work ids the block owns; the field \<open>block_offset\<close> holds the same offset
  counted in lanes, \<open>fetched * block_size\<close>. The configuration is one in which
  \<open>subwarp_size\<close> divides \<open>block_size\<close>, and the block is one whose lanes are all below
  \<open>2 ^ (index_bits - 1)\<close>, that is \<open>(fetched + 1) * block_size < 2 ^ (index_bits - 1)\<close>, and
  whose counter does not overflow, \<open>fetched + 1 < 2 ^ 31\<close>.
\<close>

theorem acquire_range_fetch_add:
  assumes "0 < subwarp_size cfg" and "subwarp_size cfg dvd block_size cfg"
    and "0 < block_size cfg"
    and "block_counter (global m) < length (status (global m))"
    and "status (global m) ! block_counter (global m) = int fetched"
    and "length (sh_status (shared m b)) = local_dependency_count cfg"
    and "0 < index_bits cfg"
    and "(int fetched + 1) * int (block_size cfg) < 2 ^ (index_bits cfg - 1)"
    and "int fetched + 1 < 2 ^ (int_bits - 1)"
  shows "\<exists>hs es m'. ctor_block cfg b m = Inr (hs, es, m')
     \<and> filter (\<lambda>e. is_atomic_add (snd (snd e))) es
          = [(b, 0, Atomic_add (int (block_counter (global m))) 1)]
     \<and> status (global m') = (status (global m))[block_counter (global m) := int fetched + 1]
     \<and> block_offset (shared m' b) = int fetched * int (block_size cfg)
     \<and> block_offset (shared m' b)
          = int fetched * int (local_dependency_count cfg) * int (subwarp_size cfg)
     \<and> length hs = block_size cfg
     \<and> (\<forall>s \<in> set hs. blockIdx s = b \<and> block_id s = int fetched)
     \<and> work_id (hs ! 0) = int fetched * int (local_dependency_count cfg)
     \<and> work_id ` set hs =
          {int fetched * int (local_dependency_count cfg)
            ..< int fetched * int (local_dependency_count cfg) + int (local_dependency_count cfg)}"
proof -
  let ?cap = "local_dependency_count cfg"
  have sh: "?cap \<le> length (sh_status (shared m b))"
    using assms(6) by simp
  have nn: "0 \<le> status (global m) ! block_counter (global m)"
    and bound: "(status (global m) ! block_counter (global m) + 1) * int (block_size cfg)
                  < 2 ^ (index_bits cfg - 1)"
    using assms(8) by (simp_all add: assms(5))
  have wr: "wrap int_bits (int fetched + 1) = int fetched + 1"
    using assms(9) by (intro wrap_id) (simp_all add: int_bits_def)
  from ctor_block_result [OF assms(3,4) sh assms(7) nn bound]
  obtain xs es where cb: "ctor_block cfg b m =
      Inr (map (\<lambda>t. \<lparr>blockIdx = b, threadIdx = t,
                 work_id = (int fetched * int (block_size cfg) + int t) sdiv int (subwarp_size cfg),
                 block_id = (int fetched * int (block_size cfg)) sdiv int (block_size cfg)\<rparr>)
             [0..<block_size cfg],
           es,
           set_sh_status b xs
             (set_block_offset b (int fetched * int (block_size cfg))
               (set_status ((status (global m))[block_counter (global m) := int fetched + 1]) m)))"
    and at: "filter (\<lambda>e. is_atomic_add (snd (snd e))) es
        = [(b, 0, Atomic_add (int (block_counter (global m))) 1)]"
    unfolding assms(5) wr by blast
  let ?hs = "map (\<lambda>t. \<lparr>blockIdx = b, threadIdx = t,
                 work_id = (int fetched * int (block_size cfg) + int t) sdiv int (subwarp_size cfg),
                 block_id = (int fetched * int (block_size cfg)) sdiv int (block_size cfg)\<rparr>)
             [0..<block_size cfg]"
  have capss: "int (block_size cfg) = int ?cap * int (subwarp_size cfg)"
    using assms(2) unfolding local_dependency_count_def
    by (metis dvd_div_mult_self of_nat_mult)
  have w0: "work_id (?hs ! 0) = int fetched * int ?cap"
    using assms(3) lane_work_id [OF assms(1,2), of fetched 0]
    by (simp add: local_dependency_count_def)
  have own: "work_id ` set ?hs = {int fetched * int ?cap ..< int fetched * int ?cap + int ?cap}"
    by (rule lanes_work_ids [OF assms(1,2)])
  have bid: "\<forall>s \<in> set ?hs. blockIdx s = b \<and> block_id s = int fetched"
    using block_block_id [OF assms(3), of fetched] by simp
  show ?thesis
    unfolding cb using at w0 own capss bid
    by (intro exI conjI) (rule refl | simp)+
qed

theorem acquire_range_fetch_add_witness:
  "0 < subwarp_size \<lparr>block_size = 4, subwarp_size = 2, index_bits = 32\<rparr>
   \<and> subwarp_size \<lparr>block_size = 4, subwarp_size = 2, index_bits = 32\<rparr> dvd block_size \<lparr>block_size = 4, subwarp_size = 2, index_bits = 32\<rparr>
   \<and> 0 < block_size \<lparr>block_size = 4, subwarp_size = 2, index_bits = 32\<rparr>
   \<and> (4::nat) < length [0, 0, 0, 0, 3 :: int]
   \<and> [0, 0, 0, 0, 3] ! 4 = int 3
   \<and> length [7, 7 :: int] = local_dependency_count \<lparr>block_size = 4, subwarp_size = 2, index_bits = 32\<rparr>
   \<and> 0 < index_bits \<lparr>block_size = 4, subwarp_size = 2, index_bits = 32\<rparr>
   \<and> (int 3 + 1) * int (block_size \<lparr>block_size = 4, subwarp_size = 2, index_bits = 32\<rparr>) < 2 ^ (index_bits \<lparr>block_size = 4, subwarp_size = 2, index_bits = 32\<rparr> - 1)
   \<and> int 3 + 1 < 2 ^ (int_bits - 1)
   \<and> (\<exists>hs es m'. ctor_block \<lparr>block_size = 4, subwarp_size = 2, index_bits = 32\<rparr> 5
          \<lparr>global = \<lparr>status = [0, 0, 0, 0, 3], block_counter = 4\<rparr>,
           shared = (\<lambda>_. \<lparr>sh_status = [7, 7], block_offset = 99\<rparr>)\<rparr> = Inr (hs, es, m')
        \<and> filter (\<lambda>e. is_atomic_add (snd (snd e))) es = [(5, 0, Atomic_add 4 1)]
        \<and> status (global m') = [0, 0, 0, 0, 4]
        \<and> block_offset (shared m' 5) = 12
        \<and> length hs = 4
        \<and> work_id (hs ! 0) = 6
        \<and> work_id ` set hs = {6..<8})"
proof -
  have h1: "0 < subwarp_size \<lparr>block_size = 4, subwarp_size = 2, index_bits = 32\<rparr>" by simp
  have h2: "subwarp_size \<lparr>block_size = 4, subwarp_size = 2, index_bits = 32\<rparr> dvd block_size \<lparr>block_size = 4, subwarp_size = 2, index_bits = 32\<rparr>"
    by simp
  have h3: "0 < block_size \<lparr>block_size = 4, subwarp_size = 2, index_bits = 32\<rparr>" by simp
  have h4: "block_counter (global \<lparr>global = \<lparr>status = [0, 0, 0, 0, 3], block_counter = 4\<rparr>,
           shared = (\<lambda>_. \<lparr>sh_status = [7, 7], block_offset = 99\<rparr>)\<rparr>)
     < length (status (global \<lparr>global = \<lparr>status = [0, 0, 0, 0, 3], block_counter = 4\<rparr>,
           shared = (\<lambda>_. \<lparr>sh_status = [7, 7], block_offset = 99\<rparr>)\<rparr>))"
    by simp
  have h5: "status (global \<lparr>global = \<lparr>status = [0, 0, 0, 0, 3], block_counter = 4\<rparr>,
           shared = (\<lambda>_. \<lparr>sh_status = [7, 7], block_offset = 99\<rparr>)\<rparr>)
      ! block_counter (global \<lparr>global = \<lparr>status = [0, 0, 0, 0, 3], block_counter = 4\<rparr>,
           shared = (\<lambda>_. \<lparr>sh_status = [7, 7], block_offset = 99\<rparr>)\<rparr>) = int 3"
    by simp
  have h6: "length (sh_status (shared \<lparr>global = \<lparr>status = [0, 0, 0, 0, 3], block_counter = 4\<rparr>,
           shared = (\<lambda>_. \<lparr>sh_status = [7, 7], block_offset = 99\<rparr>)\<rparr> 5))
        = local_dependency_count \<lparr>block_size = 4, subwarp_size = 2, index_bits = 32\<rparr>"
    by (simp add: local_dependency_count_def)
  have h7: "0 < index_bits \<lparr>block_size = 4, subwarp_size = 2, index_bits = 32\<rparr>" by simp
  have h8: "(int 3 + 1) * int (block_size \<lparr>block_size = 4, subwarp_size = 2, index_bits = 32\<rparr>) < 2 ^ (index_bits \<lparr>block_size = 4, subwarp_size = 2, index_bits = 32\<rparr> - 1)"
    by simp
  have h9: "int 3 + 1 < 2 ^ (int_bits - 1)"
    by (simp add: int_bits_def)
  from acquire_range_fetch_add [OF h1 h2 h3 h4 h5 h6 h7 h8 h9]
  obtain hs es m' where r: "ctor_block \<lparr>block_size = 4, subwarp_size = 2, index_bits = 32\<rparr> 5
          \<lparr>global = \<lparr>status = [0, 0, 0, 0, 3], block_counter = 4\<rparr>,
           shared = (\<lambda>_. \<lparr>sh_status = [7, 7], block_offset = 99\<rparr>)\<rparr> = Inr (hs, es, m')"
    and at: "filter (\<lambda>e. is_atomic_add (snd (snd e))) es
          = [(5, 0, Atomic_add (int (block_counter (global \<lparr>global = \<lparr>status = [0, 0, 0, 0, 3], block_counter = 4\<rparr>,
           shared = (\<lambda>_. \<lparr>sh_status = [7, 7], block_offset = 99\<rparr>)\<rparr>))) 1)]"
    and st: "status (global m') = (status (global \<lparr>global = \<lparr>status = [0, 0, 0, 0, 3], block_counter = 4\<rparr>,
           shared = (\<lambda>_. \<lparr>sh_status = [7, 7], block_offset = 99\<rparr>)\<rparr>))
             [block_counter (global \<lparr>global = \<lparr>status = [0, 0, 0, 0, 3], block_counter = 4\<rparr>,
           shared = (\<lambda>_. \<lparr>sh_status = [7, 7], block_offset = 99\<rparr>)\<rparr>) := int 3 + 1]"
    and off: "block_offset (shared m' 5) = int 3 * int (block_size \<lparr>block_size = 4, subwarp_size = 2, index_bits = 32\<rparr>)"
    and len: "length hs = block_size \<lparr>block_size = 4, subwarp_size = 2, index_bits = 32\<rparr>"
    and w0: "work_id (hs ! 0) = int 3 * int (local_dependency_count \<lparr>block_size = 4, subwarp_size = 2, index_bits = 32\<rparr>)"
    and own: "work_id ` set hs =
          {int 3 * int (local_dependency_count \<lparr>block_size = 4, subwarp_size = 2, index_bits = 32\<rparr>)
            ..< int 3 * int (local_dependency_count \<lparr>block_size = 4, subwarp_size = 2, index_bits = 32\<rparr>)
                  + int (local_dependency_count \<lparr>block_size = 4, subwarp_size = 2, index_bits = 32\<rparr>)}"
    by (elim exE conjE) (rule that; assumption)
  have ex: "\<exists>hs es m'. ctor_block \<lparr>block_size = 4, subwarp_size = 2, index_bits = 32\<rparr> 5
          \<lparr>global = \<lparr>status = [0, 0, 0, 0, 3], block_counter = 4\<rparr>,
           shared = (\<lambda>_. \<lparr>sh_status = [7, 7], block_offset = 99\<rparr>)\<rparr> = Inr (hs, es, m')
        \<and> filter (\<lambda>e. is_atomic_add (snd (snd e))) es = [(5, 0, Atomic_add 4 1)]
        \<and> status (global m') = [0, 0, 0, 0, 4]
        \<and> block_offset (shared m' 5) = 12
        \<and> length hs = 4
        \<and> work_id (hs ! 0) = 6
        \<and> work_id ` set hs = {6..<8}"
    using r at st off len w0 own
    by (intro exI [of _ hs] exI [of _ es] exI [of _ m'] conjI)
       (simp_all add: local_dependency_count_def)
  have h4': "(4::nat) < length [0, 0, 0, 0, 3 :: int]" and h5': "[0, 0, 0, 0, 3] ! 4 = int 3"
    and h6': "length [7, 7 :: int] = local_dependency_count \<lparr>block_size = 4, subwarp_size = 2, index_bits = 32\<rparr>"
    by (simp_all add: local_dependency_count_def)
  show ?thesis
    by (intro conjI)
       (fact h1, fact h2, fact h3, fact h4', fact h5', fact h6', fact h7, fact h8, fact h9, fact ex)
qed

text \<open>
  C5. After the constructor, \<open>get_work_id\<close> of lane \<open>t\<close> returns the block's base offset in
  work items (\<open>block_offset / subwarp_size\<close>, which is the fetched counter value times
  \<open>block_size / subwarp_size\<close>) plus the index \<open>t / subwarp_size\<close> of the lane's lane-group
  within the block. It returns this value at every call, whatever the memory holds at that
  time, performs no action and changes nothing. The configuration is one in which
  \<open>subwarp_size\<close> divides \<open>block_size\<close>, and the block is one whose lanes are all below
  \<open>2 ^ (index_bits - 1)\<close>, that is \<open>(fetched + 1) * block_size < 2 ^ (index_bits - 1)\<close>.
\<close>

theorem get_work_id_value:
  assumes "0 < subwarp_size cfg" and "subwarp_size cfg dvd block_size cfg"
    and "t < block_size cfg"
    and "block_counter (global m) < length (status (global m))"
    and "status (global m) ! block_counter (global m) = int fetched"
    and "length (sh_status (shared m b)) = local_dependency_count cfg"
    and "0 < index_bits cfg"
    and "(int fetched + 1) * int (block_size cfg) < 2 ^ (index_bits cfg - 1)"
  shows "\<exists>hs es m'. ctor_block cfg b m = Inr (hs, es, m')
     \<and> block_offset (shared m' b) div int (subwarp_size cfg)
          = int fetched * int (local_dependency_count cfg)
     \<and> (\<forall>m1. get_work_id (hs ! t) m1 =
           Inr (block_offset (shared m' b) div int (subwarp_size cfg)
                  + int (t div subwarp_size cfg), [], m1))"
proof -
  let ?cap = "local_dependency_count cfg"
  have sh: "?cap \<le> length (sh_status (shared m b))"
    using assms(6) by simp
  from assms(3) have bs: "0 < block_size cfg" by simp
  have nn: "0 \<le> status (global m) ! block_counter (global m)"
    and bound: "(status (global m) ! block_counter (global m) + 1) * int (block_size cfg)
                  < 2 ^ (index_bits cfg - 1)"
    using assms(8) by (simp_all add: assms(5))
  from ctor_block_result [OF bs assms(4) sh assms(7) nn bound]
  obtain xs es where cb: "ctor_block cfg b m =
      Inr (map (\<lambda>t. \<lparr>blockIdx = b, threadIdx = t,
                 work_id = (int fetched * int (block_size cfg) + int t) sdiv int (subwarp_size cfg),
                 block_id = (int fetched * int (block_size cfg)) sdiv int (block_size cfg)\<rparr>)
             [0..<block_size cfg],
           es,
           set_sh_status b xs
             (set_block_offset b (int fetched * int (block_size cfg))
               (set_status ((status (global m))[block_counter (global m) :=
                   wrap int_bits (int fetched + 1)]) m)))"
    unfolding assms(5) by blast
  have capss: "int (block_size cfg) = int ?cap * int (subwarp_size cfg)"
    using assms(2) unfolding local_dependency_count_def
    by (metis dvd_div_mult_self of_nat_mult)
  have base: "(int fetched * int (block_size cfg)) div int (subwarp_size cfg) = int fetched * int ?cap"
    using assms(1) by (simp add: capss)
  have w: "(int fetched * int (block_size cfg) + int t) sdiv int (subwarp_size cfg)
      = int fetched * int ?cap + int (t div subwarp_size cfg)"
    using lane_work_id [OF assms(1,2), of fetched t]
    by (simp add: local_dependency_count_def)
  show ?thesis
    unfolding cb using assms(3) base w
    by (intro exI conjI) (rule refl | simp add: get_work_id_def return_prog_def)+
qed

theorem get_work_id_value_witness:
  "0 < subwarp_size \<lparr>block_size = 4, subwarp_size = 2, index_bits = 32\<rparr>
   \<and> subwarp_size \<lparr>block_size = 4, subwarp_size = 2, index_bits = 32\<rparr> dvd block_size \<lparr>block_size = 4, subwarp_size = 2, index_bits = 32\<rparr>
   \<and> 3 < block_size \<lparr>block_size = 4, subwarp_size = 2, index_bits = 32\<rparr>
   \<and> 0 < index_bits \<lparr>block_size = 4, subwarp_size = 2, index_bits = 32\<rparr>
   \<and> (int 3 + 1) * int (block_size \<lparr>block_size = 4, subwarp_size = 2, index_bits = 32\<rparr>) < 2 ^ (index_bits \<lparr>block_size = 4, subwarp_size = 2, index_bits = 32\<rparr> - 1)
   \<and> (\<exists>hs es m'. ctor_block \<lparr>block_size = 4, subwarp_size = 2, index_bits = 32\<rparr> 5
          \<lparr>global = \<lparr>status = [0, 0, 0, 0, 3], block_counter = 4\<rparr>,
           shared = (\<lambda>_. \<lparr>sh_status = [7, 7], block_offset = 99\<rparr>)\<rparr> = Inr (hs, es, m')
        \<and> block_offset (shared m' 5) div 2 = 6
        \<and> (\<forall>m1. get_work_id (hs ! 3) m1 = Inr (7, [], m1)))"
proof -
  have h1: "0 < subwarp_size \<lparr>block_size = 4, subwarp_size = 2, index_bits = 32\<rparr>" by simp
  have h2: "subwarp_size \<lparr>block_size = 4, subwarp_size = 2, index_bits = 32\<rparr> dvd block_size \<lparr>block_size = 4, subwarp_size = 2, index_bits = 32\<rparr>"
    by simp
  have h3: "3 < block_size \<lparr>block_size = 4, subwarp_size = 2, index_bits = 32\<rparr>" by simp
  have h4: "block_counter (global \<lparr>global = \<lparr>status = [0, 0, 0, 0, 3], block_counter = 4\<rparr>,
           shared = (\<lambda>_. \<lparr>sh_status = [7, 7], block_offset = 99\<rparr>)\<rparr>)
     < length (status (global \<lparr>global = \<lparr>status = [0, 0, 0, 0, 3], block_counter = 4\<rparr>,
           shared = (\<lambda>_. \<lparr>sh_status = [7, 7], block_offset = 99\<rparr>)\<rparr>))"
    by simp
  have h5: "status (global \<lparr>global = \<lparr>status = [0, 0, 0, 0, 3], block_counter = 4\<rparr>,
           shared = (\<lambda>_. \<lparr>sh_status = [7, 7], block_offset = 99\<rparr>)\<rparr>)
      ! block_counter (global \<lparr>global = \<lparr>status = [0, 0, 0, 0, 3], block_counter = 4\<rparr>,
           shared = (\<lambda>_. \<lparr>sh_status = [7, 7], block_offset = 99\<rparr>)\<rparr>) = int 3"
    by simp
  have h6: "length (sh_status (shared \<lparr>global = \<lparr>status = [0, 0, 0, 0, 3], block_counter = 4\<rparr>,
           shared = (\<lambda>_. \<lparr>sh_status = [7, 7], block_offset = 99\<rparr>)\<rparr> 5))
        = local_dependency_count \<lparr>block_size = 4, subwarp_size = 2, index_bits = 32\<rparr>"
    by (simp add: local_dependency_count_def)
  have h7: "0 < index_bits \<lparr>block_size = 4, subwarp_size = 2, index_bits = 32\<rparr>" by simp
  have h8: "(int 3 + 1) * int (block_size \<lparr>block_size = 4, subwarp_size = 2, index_bits = 32\<rparr>) < 2 ^ (index_bits \<lparr>block_size = 4, subwarp_size = 2, index_bits = 32\<rparr> - 1)"
    by simp
  from get_work_id_value [OF h1 h2 h3 h4 h5 h6 h7 h8]
  obtain hs es m' where r: "ctor_block \<lparr>block_size = 4, subwarp_size = 2, index_bits = 32\<rparr> 5
          \<lparr>global = \<lparr>status = [0, 0, 0, 0, 3], block_counter = 4\<rparr>,
           shared = (\<lambda>_. \<lparr>sh_status = [7, 7], block_offset = 99\<rparr>)\<rparr> = Inr (hs, es, m')"
    and base: "block_offset (shared m' 5) div 2 = 6"
    and w: "\<forall>m1. get_work_id (hs ! 3) m1 = Inr (block_offset (shared m' 5) div 2 + 1, [], m1)"
    by (auto simp: local_dependency_count_def)
  from w base have "\<forall>m1. get_work_id (hs ! 3) m1 = Inr (7, [], m1)" by simp
  with r base have "\<exists>hs es m'. ctor_block \<lparr>block_size = 4, subwarp_size = 2, index_bits = 32\<rparr> 5
          \<lparr>global = \<lparr>status = [0, 0, 0, 0, 3], block_counter = 4\<rparr>,
           shared = (\<lambda>_. \<lparr>sh_status = [7, 7], block_offset = 99\<rparr>)\<rparr> = Inr (hs, es, m')
        \<and> block_offset (shared m' 5) div 2 = 6
        \<and> (\<forall>m1. get_work_id (hs ! 3) m1 = Inr (7, [], m1))"
    by blast
  with h1 h2 h3 h7 h8 show ?thesis by blast
qed

text \<open>
  C6. The storage constructor, for \<open>num_elements\<close> items with \<open>num_elements + 1\<close>
  representable in \<open>size_type\<close>, and whatever the array held before, leaves an array of
  exactly \<open>num_elements + 1\<close> words that are all 0, and makes \<open>block_counter\<close> point to the
  last of them, the one at index \<open>num_elements\<close>. The scheduler is constructed from this
  value: a block that starts in a memory holding it, whatever the shared memory holds,
  finds the counter in bounds and fetches 0 from it, and its fetch-and-add changes only
  that slot, to 1.
\<close>

theorem syncfree_storage_zero_filled:
  assumes "num_elements + 1 < 2 ^ size_bits"
  shows "\<exists>st. syncfree_storage_ctor junk status_array num_elements = Some st
    \<and> status st = replicate (num_elements + 1) 0
    \<and> length (status st) = num_elements + 1
    \<and> block_counter st = num_elements
    \<and> (\<forall>sh b. step b (Atomic_add (int (block_counter st)) 1) \<lparr>global = st, shared = sh\<rparr>
          = Inr (0, \<lparr>global = st\<lparr>status := (replicate (num_elements + 1) 0)[num_elements := 1]\<rparr>,
                     shared = sh\<rparr>))"
proof -
  let ?st = "\<lparr>status = replicate (num_elements + 1) 0, block_counter = num_elements\<rparr>"
  have c: "syncfree_storage_ctor junk status_array num_elements = Some ?st"
    by (rule storage_ctor_result [OF assms])
  have z: "replicate (num_elements + 1) (0::int) ! num_elements = 0"
    by (rule nth_replicate) simp
  have w: "wrap int_bits 1 = 1"
    by (rule wrap_id) (simp_all add: int_bits_def)
  have fetch: "step b (Atomic_add (int (block_counter ?st)) 1) \<lparr>global = ?st, shared = sh\<rparr>
          = Inr (0, \<lparr>global = ?st\<lparr>status := (replicate (num_elements + 1) 0)[num_elements := 1]\<rparr>,
                     shared = sh\<rparr>)" for sh b
    using z w by (simp add: rd_def set_status_def del: replicate.simps replicate_Suc)
  show ?thesis
  proof (intro exI [of _ ?st] conjI allI)
    show "syncfree_storage_ctor junk status_array num_elements = Some ?st"
      by (rule c)
    show "status ?st = replicate (num_elements + 1) 0" by simp
    show "length (status ?st) = num_elements + 1" by simp
    show "block_counter ?st = num_elements" by simp
    fix sh b
    show "step b (Atomic_add (int (block_counter ?st)) 1) \<lparr>global = ?st, shared = sh\<rparr>
          = Inr (0, \<lparr>global = ?st\<lparr>status := (replicate (num_elements + 1) 0)[num_elements := 1]\<rparr>,
                     shared = sh\<rparr>)"
      by (rule fetch)
  qed
qed

theorem syncfree_storage_zero_filled_witness:
  "(4::nat) + 1 < 2 ^ size_bits
   \<and> syncfree_storage_ctor (\<lambda>_. 7) [5, 6] 4 = Some \<lparr>status = [0, 0, 0, 0, 0], block_counter = 4\<rparr>"
proof -
  have h: "(4::nat) + 1 < 2 ^ size_bits"
    by (simp add: size_bits_def)
  from syncfree_storage_zero_filled [OF h, where junk = "\<lambda>_. 7" and status_array = "[5, 6]"]
  obtain st where "syncfree_storage_ctor (\<lambda>_. 7) [5, 6] 4 = Some st"
    and "status st = replicate (4 + 1) 0" and "block_counter st = 4"
    by (elim exE conjE) (rule that; assumption)
  then have "syncfree_storage_ctor (\<lambda>_. 7) [5, 6] 4 = Some \<lparr>status = [0, 0, 0, 0, 0], block_counter = 4\<rparr>"
    by (cases st) (simp add: eval_nat_numeral)
  with h show ?thesis by (intro conjI)
qed

text \<open>
  C7. For a dependency \<open>d\<close> (a work id, so \<open>0 \<le> d\<close>), \<open>peek d\<close> performs exactly one load and
  nothing else: of the local slot \<open>d mod (block_size / subwarp_size)\<close> with
  \<open>load_acquire_shared\<close> when \<open>d\<close> divided by \<open>block_size / subwarp_size\<close> is the caller's
  block id, of the global flag \<open>d\<close> with \<open>load_acquire\<close> otherwise. It returns whether the
  loaded word is non-zero and leaves the memory as it was. The location is the one \<open>wait d\<close>
  polls: in the same memory the designated lane's \<open>wait d\<close> performs this very load and
  returns at once when \<open>peek d\<close> is true, and is still spinning when it is false.
\<close>

theorem peek_probe:
  assumes "0 < local_dependency_count cfg" and "0 \<le> d"
    and "nat d < length (status (global m))"
    and "length (sh_status (shared m (blockIdx s))) = local_dependency_count cfg"
  shows "\<exists>r e. peek cfg s d m = Inr (r, [e], m)
    \<and> e = (blockIdx s, threadIdx s,
           if d div int (local_dependency_count cfg) = block_id s
           then Load_acquire_shared (int (nat d mod local_dependency_count cfg))
           else Load_acquire d)
    \<and> r = ((if d div int (local_dependency_count cfg) = block_id s
            then sh_status (shared m (blockIdx s)) ! (nat d mod local_dependency_count cfg)
            else status (global m) ! nat d) \<noteq> 0)
    \<and> (get_lane cfg s = 0 \<longrightarrow>
         wait cfg s d m [] =
           (if r then Inr ((), [e, (blockIdx s, threadIdx s, Tile_sync)], m) else Inl Spinning))"
proof -
  have dv: "d sdiv int (local_dependency_count cfg) = d div int (local_dependency_count cfg)"
    using assms(1,2) by (simp add: sdiv_nonneg zdiv_int)
  show ?thesis
  proof (cases "d div int (local_dependency_count cfg) = block_id s")
    case True
    with dv have loc: "d sdiv int (local_dependency_count cfg) = block_id s" by simp
    show ?thesis
      using True assms peek_local [OF assms(1,2) loc assms(4)]
      by (auto simp: wait_lane0_local [OF assms(1) _ assms(2) loc])
  next
    case False
    with dv have glob: "d sdiv int (local_dependency_count cfg) \<noteq> block_id s" by simp
    show ?thesis
      using False assms peek_global [OF assms(1,2) glob assms(3)]
      by (auto simp: wait_lane0_global [OF assms(1) _ assms(2) glob])
  qed
qed

theorem peek_probe_witness:
  "0 < local_dependency_count \<lparr>block_size = 4, subwarp_size = 2, index_bits = 32\<rparr>
   \<and> (0::int) \<le> 1
   \<and> nat 1 < length [1, 1, 0, 0, 0 :: int]
   \<and> length [0, 0 :: int] = local_dependency_count \<lparr>block_size = 4, subwarp_size = 2, index_bits = 32\<rparr>
   \<and> peek \<lparr>block_size = 4, subwarp_size = 2, index_bits = 32\<rparr>
        \<lparr>blockIdx = 0, threadIdx = 2, work_id = 3, block_id = 1\<rparr> 1
        \<lparr>global = \<lparr>status = [1, 1, 0, 0, 0], block_counter = 4\<rparr>,
         shared = (\<lambda>_. \<lparr>sh_status = [0, 0], block_offset = 4\<rparr>)\<rparr>
     = Inr (True, [(0, 2, Load_acquire 1)],
            \<lparr>global = \<lparr>status = [1, 1, 0, 0, 0], block_counter = 4\<rparr>,
             shared = (\<lambda>_. \<lparr>sh_status = [0, 0], block_offset = 4\<rparr>)\<rparr>)
   \<and> wait \<lparr>block_size = 4, subwarp_size = 2, index_bits = 32\<rparr>
        \<lparr>blockIdx = 0, threadIdx = 2, work_id = 3, block_id = 1\<rparr> 1
        \<lparr>global = \<lparr>status = [1, 1, 0, 0, 0], block_counter = 4\<rparr>,
         shared = (\<lambda>_. \<lparr>sh_status = [0, 0], block_offset = 4\<rparr>)\<rparr> []
     = Inr ((), [(0, 2, Load_acquire 1), (0, 2, Tile_sync)],
            \<lparr>global = \<lparr>status = [1, 1, 0, 0, 0], block_counter = 4\<rparr>,
             shared = (\<lambda>_. \<lparr>sh_status = [0, 0], block_offset = 4\<rparr>)\<rparr>)"
  using peek_probe [of "\<lparr>block_size = 4, subwarp_size = 2, index_bits = 32\<rparr>" 1
        "\<lparr>global = \<lparr>status = [1, 1, 0, 0, 0], block_counter = 4\<rparr>,
         shared = (\<lambda>_. \<lparr>sh_status = [0, 0], block_offset = 4\<rparr>)\<rparr>"
        "\<lparr>blockIdx = 0, threadIdx = 2, work_id = 3, block_id = 1\<rparr>"]
  by (auto simp: local_dependency_count_def get_lane_def)

text \<open>
  C8. When a call of \<open>mark_ready\<close> has returned, a second call by the same lane in the
  memory the first one left also returns and leaves that memory as it is: the global flags
  and the local slots after two calls are those after one.
\<close>

theorem mark_ready_idempotent:
  assumes "mark_ready cfg s m = Inr (u, es, m')"
  shows "\<exists>es'. mark_ready cfg s m' = Inr ((), es', m')"
proof (cases "get_lane cfg s = 0")
  case True
  from mark_ready_designated_success [OF True assms]
  have ok: "0 < local_dependency_count cfg" "0 \<le> work_id s"
    "nat (work_id s) < length (status (global m))"
    "nat (work_id s) mod local_dependency_count cfg < length (sh_status (shared m (blockIdx s)))"
    by simp_all
  from assms have m': "m' = set_status ((status (global m))[nat (work_id s) := 1])
       (set_sh_status (blockIdx s) ((sh_status (shared m (blockIdx s)))[nat (work_id s) mod local_dependency_count cfg := 1]) m)"
    by (simp add: mark_ready_designated [OF True ok])
  have "mark_ready cfg s m' = Inr ((),
     [(blockIdx s, threadIdx s, Tile_sync),
      (blockIdx s, threadIdx s, Store_release_shared (int (nat (work_id s) mod local_dependency_count cfg)) 1),
      (blockIdx s, threadIdx s, Store_release (work_id s) 1)],
     set_status ((status (global m'))[nat (work_id s) := 1])
       (set_sh_status (blockIdx s) ((sh_status (shared m' (blockIdx s)))[nat (work_id s) mod local_dependency_count cfg := 1]) m'))"
    using ok by (intro mark_ready_designated [OF True]) (simp_all add: m')
  also have "set_status ((status (global m'))[nat (work_id s) := 1])
       (set_sh_status (blockIdx s) ((sh_status (shared m' (blockIdx s)))[nat (work_id s) mod local_dependency_count cfg := 1]) m') = m'"
    by (simp add: m' set_status_def set_sh_status_def)
  finally show ?thesis by blast
next
  case False
  with assms show ?thesis
    by (simp add: mark_ready_other)
qed

theorem mark_ready_idempotent_witness:
  "mark_ready \<lparr>block_size = 4, subwarp_size = 2, index_bits = 32\<rparr>
     \<lparr>blockIdx = 0, threadIdx = 2, work_id = 1, block_id = 0\<rparr>
     \<lparr>global = \<lparr>status = [0, 0, 0, 0, 0], block_counter = 4\<rparr>,
      shared = (\<lambda>_. \<lparr>sh_status = [0, 0], block_offset = 0\<rparr>)\<rparr>
   = Inr ((), [(0, 2, Tile_sync), (0, 2, Store_release_shared 1 1), (0, 2, Store_release 1 1)],
          \<lparr>global = \<lparr>status = [0, 1, 0, 0, 0], block_counter = 4\<rparr>,
           shared = (\<lambda>_. \<lparr>sh_status = [0, 0], block_offset = 0\<rparr>)
                      (0 := \<lparr>sh_status = [0, 1], block_offset = 0\<rparr>)\<rparr>)
   \<and> (\<exists>es'. mark_ready \<lparr>block_size = 4, subwarp_size = 2, index_bits = 32\<rparr>
          \<lparr>blockIdx = 0, threadIdx = 2, work_id = 1, block_id = 0\<rparr>
          \<lparr>global = \<lparr>status = [0, 1, 0, 0, 0], block_counter = 4\<rparr>,
           shared = (\<lambda>_. \<lparr>sh_status = [0, 0], block_offset = 0\<rparr>)
                      (0 := \<lparr>sh_status = [0, 1], block_offset = 0\<rparr>)\<rparr>
        = Inr ((), es',
          \<lparr>global = \<lparr>status = [0, 1, 0, 0, 0], block_counter = 4\<rparr>,
           shared = (\<lambda>_. \<lparr>sh_status = [0, 0], block_offset = 0\<rparr>)
                      (0 := \<lparr>sh_status = [0, 1], block_offset = 0\<rparr>)\<rparr>))"
proof -
  have h: "mark_ready \<lparr>block_size = 4, subwarp_size = 2, index_bits = 32\<rparr>
     \<lparr>blockIdx = 0, threadIdx = 2, work_id = 1, block_id = 0\<rparr>
     \<lparr>global = \<lparr>status = [0, 0, 0, 0, 0], block_counter = 4\<rparr>,
      shared = (\<lambda>_. \<lparr>sh_status = [0, 0], block_offset = 0\<rparr>)\<rparr>
   = Inr ((), [(0, 2, Tile_sync), (0, 2, Store_release_shared 1 1), (0, 2, Store_release 1 1)],
          \<lparr>global = \<lparr>status = [0, 1, 0, 0, 0], block_counter = 4\<rparr>,
           shared = (\<lambda>_. \<lparr>sh_status = [0, 0], block_offset = 0\<rparr>)
                      (0 := \<lparr>sh_status = [0, 1], block_offset = 0\<rparr>)\<rparr>)"
    by (simp add: mark_ready_lane0_cases get_lane_def local_dependency_count_def
          signed_modulo_int_def wr_def set_status_def set_sh_status_def)
  from mark_ready_idempotent [OF h] h show ?thesis by simp
qed

text \<open>
  C9. None of \<open>get_work_id\<close>, \<open>wait\<close>, \<open>peek\<close> and \<open>mark_ready\<close> emits a store of a word
  other than 1, nor any write of the constructor. Hence along every execution made of
  events of these four functions, by whichever lanes and interleaved in whichever way,
  every global flag and every local slot either keeps its word or becomes 1; a flag that
  holds 1 holds 1 in every later memory.
\<close>

theorem flags_monotonic:
  assumes "\<forall>e \<in> set es. scheduler_event cfg e" and "run_events es m = Inr m'"
  shows "(\<forall>e \<in> set es. \<not> writes_not_ready (snd (snd e)))
    \<and> length (status (global m')) = length (status (global m))
    \<and> (\<forall>i < length (status (global m)).
          status (global m') ! i = status (global m) ! i \<or> status (global m') ! i = 1)
    \<and> (\<forall>i < length (status (global m)).
          status (global m) ! i = 1 \<longrightarrow> status (global m') ! i = 1)
    \<and> (\<forall>b. length (sh_status (shared m' b)) = length (sh_status (shared m b)))
    \<and> (\<forall>b. \<forall>i < length (sh_status (shared m b)).
          sh_status (shared m' b) ! i = sh_status (shared m b) ! i \<or> sh_status (shared m' b) ! i = 1)
    \<and> (\<forall>b. \<forall>i < length (sh_status (shared m b)).
          sh_status (shared m b) ! i = 1 \<longrightarrow> sh_status (shared m' b) ! i = 1)"
proof -
  from assms(1) have h: "\<forall>e \<in> set es. \<not> writes_not_ready (snd (snd e))"
    by (blast dest: scheduler_event_harmless)
  from run_events_advance [OF h assms(2)]
  have g: "flags_advance (status (global m)) (status (global m'))"
    and l: "\<And>b. flags_advance (sh_status (shared m b)) (sh_status (shared m' b))"
    by simp_all
  from g have "length (status (global m')) = length (status (global m))"
    "\<forall>i < length (status (global m)).
          status (global m') ! i = status (global m) ! i \<or> status (global m') ! i = 1"
    by (simp_all add: flags_advance_def)
  moreover from l have "\<forall>b. length (sh_status (shared m' b)) = length (sh_status (shared m b))"
    "\<forall>b. \<forall>i < length (sh_status (shared m b)).
          sh_status (shared m' b) ! i = sh_status (shared m b) ! i \<or> sh_status (shared m' b) ! i = 1"
    by (simp_all add: flags_advance_def)
  ultimately show ?thesis using h by fastforce
qed

theorem flags_monotonic_witness:
  "scheduler_event \<lparr>block_size = 4, subwarp_size = 2, index_bits = 32\<rparr> (0, 2, Tile_sync)
   \<and> scheduler_event \<lparr>block_size = 4, subwarp_size = 2, index_bits = 32\<rparr> (0, 2, Store_release_shared 1 1)
   \<and> scheduler_event \<lparr>block_size = 4, subwarp_size = 2, index_bits = 32\<rparr> (0, 2, Store_release 1 1)
   \<and> run_events [(0, 2, Tile_sync), (0, 2, Store_release_shared 1 1), (0, 2, Store_release 1 1)]
        \<lparr>global = \<lparr>status = [1, 0, 0, 0, 2], block_counter = 4\<rparr>,
         shared = (\<lambda>_. \<lparr>sh_status = [1, 0], block_offset = 0\<rparr>)\<rparr>
      = Inr \<lparr>global = \<lparr>status = [1, 1, 0, 0, 2], block_counter = 4\<rparr>,
             shared = (\<lambda>_. \<lparr>sh_status = [1, 0], block_offset = 0\<rparr>)
                        (0 := \<lparr>sh_status = [1, 1], block_offset = 0\<rparr>)\<rparr>
   \<and> [1, 0, 0, 0, 2 :: int] ! 0 = 1 \<and> [1, 1, 0, 0, 2 :: int] ! 0 = 1"
proof -
  have mr: "mark_ready \<lparr>block_size = 4, subwarp_size = 2, index_bits = 32\<rparr>
     \<lparr>blockIdx = 0, threadIdx = 2, work_id = 1, block_id = 0\<rparr>
     \<lparr>global = \<lparr>status = [1, 0, 0, 0, 2], block_counter = 4\<rparr>,
      shared = (\<lambda>_. \<lparr>sh_status = [1, 0], block_offset = 0\<rparr>)\<rparr>
   = Inr ((), [(0, 2, Tile_sync), (0, 2, Store_release_shared 1 1), (0, 2, Store_release 1 1)],
          \<lparr>global = \<lparr>status = [1, 1, 0, 0, 2], block_counter = 4\<rparr>,
           shared = (\<lambda>_. \<lparr>sh_status = [1, 0], block_offset = 0\<rparr>)
                      (0 := \<lparr>sh_status = [1, 1], block_offset = 0\<rparr>)\<rparr>)"
    by (simp add: mark_ready_lane0_cases get_lane_def local_dependency_count_def
          signed_modulo_int_def wr_def set_status_def set_sh_status_def)
  have h1: "\<forall>e \<in> set [(0, 2, Tile_sync), (0, 2, Store_release_shared 1 1), (0, 2, Store_release 1 1)].
      scheduler_event \<lparr>block_size = 4, subwarp_size = 2, index_bits = 32\<rparr> e"
    by (blast intro: scheduler_event.of_mark_ready [OF mr])
  have h2: "run_events [(0, 2, Tile_sync), (0, 2, Store_release_shared 1 1), (0, 2, Store_release 1 1)]
        \<lparr>global = \<lparr>status = [1, 0, 0, 0, 2], block_counter = 4\<rparr>,
         shared = (\<lambda>_. \<lparr>sh_status = [1, 0], block_offset = 0\<rparr>)\<rparr>
      = Inr \<lparr>global = \<lparr>status = [1, 1, 0, 0, 2], block_counter = 4\<rparr>,
             shared = (\<lambda>_. \<lparr>sh_status = [1, 0], block_offset = 0\<rparr>)
                        (0 := \<lparr>sh_status = [1, 1], block_offset = 0\<rparr>)\<rparr>"
    by (simp add: wr_def set_status_def set_sh_status_def)
  from flags_monotonic [OF h1 h2] h1 h2 show ?thesis
    by simp
qed

text \<open>
  C10. A call of \<open>mark_ready\<close> for work id \<open>w\<close>, a work item and so below the index of the
  counter, changes at most the global flag \<open>w\<close> and the slot \<open>w mod (block_size /
  subwarp_size)\<close> of the caller's block: every other global word, the block counter, every
  other slot of the block, the block's \<open>block_offset\<close>, the shared storage of every other
  block and the sizes of the arrays are as before.
\<close>

theorem mark_ready_frame:
  assumes "mark_ready cfg s m = Inr (u, es, m')"
    and "work_id s < int (block_counter (global m))"
  shows "block_counter (global m') = block_counter (global m)
    \<and> length (status (global m')) = length (status (global m))
    \<and> (\<forall>i. i \<noteq> nat (work_id s) \<longrightarrow> status (global m') ! i = status (global m) ! i)
    \<and> status (global m') ! block_counter (global m') = status (global m) ! block_counter (global m)
    \<and> (\<forall>b. b \<noteq> blockIdx s \<longrightarrow> shared m' b = shared m b)
    \<and> block_offset (shared m' (blockIdx s)) = block_offset (shared m (blockIdx s))
    \<and> length (sh_status (shared m' (blockIdx s))) = length (sh_status (shared m (blockIdx s)))
    \<and> (\<forall>j. j \<noteq> nat (work_id s) mod local_dependency_count cfg \<longrightarrow>
          sh_status (shared m' (blockIdx s)) ! j = sh_status (shared m (blockIdx s)) ! j)"
proof (cases "get_lane cfg s = 0")
  case True
  from mark_ready_designated_success [OF True assms(1)]
  have ok: "0 < local_dependency_count cfg" "0 \<le> work_id s"
    "nat (work_id s) < length (status (global m))"
    "nat (work_id s) mod local_dependency_count cfg < length (sh_status (shared m (blockIdx s)))"
    by simp_all
  from assms(1) have m': "m' = set_status ((status (global m))[nat (work_id s) := 1])
       (set_sh_status (blockIdx s) ((sh_status (shared m (blockIdx s)))[nat (work_id s) mod local_dependency_count cfg := 1]) m)"
    by (simp add: mark_ready_designated [OF True ok])
  from ok(2) assms(2) have "nat (work_id s) \<noteq> block_counter (global m)"
    by linarith
  then show ?thesis
    by (simp add: m')
next
  case False
  with assms(1) show ?thesis
    by (simp add: mark_ready_other)
qed

theorem mark_ready_frame_witness:
  "mark_ready \<lparr>block_size = 4, subwarp_size = 2, index_bits = 32\<rparr>
     \<lparr>blockIdx = 0, threadIdx = 2, work_id = 1, block_id = 0\<rparr>
     \<lparr>global = \<lparr>status = [0, 0, 0, 0, 2], block_counter = 4\<rparr>,
      shared = (\<lambda>_. \<lparr>sh_status = [0, 0], block_offset = 0\<rparr>)\<rparr>
   = Inr ((), [(0, 2, Tile_sync), (0, 2, Store_release_shared 1 1), (0, 2, Store_release 1 1)],
          \<lparr>global = \<lparr>status = [0, 1, 0, 0, 2], block_counter = 4\<rparr>,
           shared = (\<lambda>_. \<lparr>sh_status = [0, 0], block_offset = 0\<rparr>)
                      (0 := \<lparr>sh_status = [0, 1], block_offset = 0\<rparr>)\<rparr>)
   \<and> (1::int) < int 4
   \<and> [0, 1, 0, 0, 2 :: int] ! 4 = [0, 0, 0, 0, 2] ! 4
   \<and> [0, 1, 0, 0, 2 :: int] ! 0 = [0, 0, 0, 0, 2] ! 0"
proof -
  have h: "mark_ready \<lparr>block_size = 4, subwarp_size = 2, index_bits = 32\<rparr>
     \<lparr>blockIdx = 0, threadIdx = 2, work_id = 1, block_id = 0\<rparr>
     \<lparr>global = \<lparr>status = [0, 0, 0, 0, 2], block_counter = 4\<rparr>,
      shared = (\<lambda>_. \<lparr>sh_status = [0, 0], block_offset = 0\<rparr>)\<rparr>
   = Inr ((), [(0, 2, Tile_sync), (0, 2, Store_release_shared 1 1), (0, 2, Store_release 1 1)],
          \<lparr>global = \<lparr>status = [0, 1, 0, 0, 2], block_counter = 4\<rparr>,
           shared = (\<lambda>_. \<lparr>sh_status = [0, 0], block_offset = 0\<rparr>)
                      (0 := \<lparr>sh_status = [0, 1], block_offset = 0\<rparr>)\<rparr>)"
    by (simp add: mark_ready_lane0_cases get_lane_def local_dependency_count_def
          signed_modulo_int_def wr_def set_status_def set_sh_status_def)
  from mark_ready_frame [OF h] h show ?thesis by simp
qed

end
